theory Spec2Isabelle
  imports Main
begin

section \<open>The resQ disaster-reporting backend\<close>

text \<open>
  The repository holds two variants of one Express server. Variant A
  (\<^verbatim>\<open>src/backend/server.js\<close>) asks a prediction service for three labels and derives an
  urgency tier; variant B (\<^verbatim>\<open>src/unnamed/part_000\<close>) stores a status column that an
  administrator can overwrite. Both keep their reports in one delimited text file and
  their users in one in-memory array.

  Conventions of the embedding.
  \<^item> A JavaScript string is a \<^typ>\<open>string\<close>; a character stands for one code unit in the
    range U+0000 to U+00FF. The text of the store file is the string that
    \<^verbatim>\<open>readFileSync(CSV_FILE, "utf8")\<close> returns.
  \<^item> Request fields are strings, as the data model of the service describes them. The
    one field whose type decides an answer is the password of a signup: it is a
    \<^typ>\<open>string option\<close>, with \<open>None\<close> for a password that is missing or is no string.
  \<^item> A handler is a function from the state it reads to its HTTP answer and the state
    it leaves behind.
  \<^item> Functions of the JavaScript runtime whose values are floating-point numbers or
    digests (\<^verbatim>\<open>Number\<close>, \<^verbatim>\<open>parseFloat\<close>, the SHA-256 digest) are parameters of the
    definitions that call them.
\<close>

subsection \<open>Urgency classifier (variant A)\<close>

text \<open>
  \<^verbatim>\<open>getUrgencyLevel\<close>, lines 56 to 75 of \<^verbatim>\<open>src/backend/server.js\<close>. An inner chain of
  comparisons that matches nothing leaves the outer chain and reaches the final
  \<^verbatim>\<open>return "N/A"\<close>.
\<close>

definition getUrgencyLevel :: "string \<Rightarrow> string \<Rightarrow> string" where
  "getUrgencyLevel humanitarian severity =
     (if humanitarian = ''affected_injured_or_dead_people'' then
        (if severity = ''severe'' then ''5 (Critical)''
         else if severity = ''mild'' then ''4 (High)''
         else if severity = ''little_or_none'' then ''3 (Moderate)''
         else ''N/A'')
      else if humanitarian = ''infrastructure_and_utility_damage'' then
        (if severity = ''severe'' then ''4 (High)''
         else if severity = ''mild'' then ''3 (Moderate)''
         else if severity = ''little_or_none'' then ''2 (Low)''
         else ''N/A'')
      else if humanitarian = ''rescue_volunteering_or_donation_effort'' then
        (if severity = ''severe'' then ''3 (Moderate)''
         else if severity = ''mild'' then ''2 (Low)''
         else if severity = ''little_or_none'' then ''1 (Minimal)''
         else ''N/A'')
      else if humanitarian = ''not_humanitarian'' then
        (if severity = ''severe'' then ''2 (Low)''
         else if severity = ''mild'' \<or> severity = ''little_or_none'' then ''1 (Minimal)''
         else ''N/A'')
      else ''N/A'')"

definition humanitarian_categories :: "string list" where
  "humanitarian_categories =
     [''affected_injured_or_dead_people'', ''infrastructure_and_utility_damage'',
      ''rescue_volunteering_or_donation_effort'', ''not_humanitarian'']"

definition severity_categories :: "string list" where
  "severity_categories = [''severe'', ''mild'', ''little_or_none'']"

subsection \<open>HTTP answers\<close>

text \<open>
  \<^verbatim>\<open>res.json(body)\<close> answers with status 200; \<^verbatim>\<open>res.status(c).json({message: m})\<close>
  answers with status \<open>c\<close> and the message \<open>m\<close>.
\<close>

datatype 'a response = Ok200 'a | Fail nat string

subsection \<open>In-memory user directory (both variants)\<close>

text \<open>
  The object that \<^verbatim>\<open>POST /signup\<close> pushes onto the array \<^verbatim>\<open>users\<close>. The field
  \<^verbatim>\<open>wallet_amount\<close> is a JavaScript number; the only value the program ever writes
  there is \<^verbatim>\<open>0.0\<close>.
\<close>

record user =
  mobile_number :: string
  name :: string
  email :: string
  password_hash :: string
  mpin :: string
  wallet_amount :: int

text \<open>
  \<^verbatim>\<open>POST /signup\<close>, lines 169 to 191 of \<^verbatim>\<open>src/unnamed/part_000\<close> (190 to 211 of
  \<^verbatim>\<open>src/backend/server.js\<close>). The digest \<^verbatim>\<open>hashPassword\<close> (SHA-256 in hexadecimal) is a
  parameter on strings; on a password that is missing or is no string the digest throws,
  and the handler's \<^verbatim>\<open>catch\<close> answers 500 with nothing stored. The search for the number
  comes first. The answer carries the message and the stored object; the second
  component is the array after the call.
\<close>

definition signup ::
  "(string \<Rightarrow> string) \<Rightarrow> string \<Rightarrow> string \<Rightarrow> string \<Rightarrow> string option \<Rightarrow> string \<Rightarrow> user list
     \<Rightarrow> (string \<times> user) response \<times> user list" where
  "signup hashPassword mobile nm em password pin users =
     (case find (\<lambda>u. mobile_number u = mobile) users of
        Some u \<Rightarrow> (Fail 400 ''Mobile number already exists.'', users)
      | None \<Rightarrow>
          (case password of
             None \<Rightarrow> (Fail 500 ''Failed to sign up user.'', users)
           | Some plain \<Rightarrow>
               (let hashedPassword = hashPassword plain;
                    newUser = \<lparr>mobile_number = mobile, name = nm, email = em,
                               password_hash = hashedPassword, mpin = pin, wallet_amount = 0\<rparr>
                in (Ok200 (''User created successfully'', newUser), users @ [newUser]))))"

text \<open>
  \<^verbatim>\<open>POST /login\<close>. The body of the answer is the message, the caller's
  \<^verbatim>\<open>{mobile_number, name}\<close> and the contacts, each a \<^verbatim>\<open>{mobile_number, name}\<close>. The
  handler does not change the array.
\<close>

definition login ::
  "string \<Rightarrow> string \<Rightarrow> user list
     \<Rightarrow> (string \<times> (string \<times> string) \<times> (string \<times> string) list) response" where
  "login mobile pin users =
     (case find (\<lambda>u. mobile_number u = mobile) users of
        None \<Rightarrow> Fail 404 ''User not found.''
      | Some u \<Rightarrow>
          if mpin u \<noteq> pin then Fail 401 ''Invalid MPIN.''
          else
            (let contacts = map (\<lambda>u. (mobile_number u, name u))
                              (filter (\<lambda>u. mobile_number u \<noteq> mobile) users)
             in Ok200 (''Login successful'', (mobile_number u, name u), contacts)))"

text \<open>The states of the directory: the empty array of a fresh process, and whatever a
  call of \<^verbatim>\<open>POST /signup\<close> leaves behind.\<close>

inductive directory :: "user list \<Rightarrow> bool" where
  fresh: "directory []"
| after_signup: "directory users \<Longrightarrow>
     directory (snd (signup hashPassword mobile nm em password pin users))"

text \<open>Two directories that agree on what \<^verbatim>\<open>POST /login\<close> with the number \<open>mobile\<close> may
  depend on: the stored numbers and names, and the mpin of the users stored under \<open>mobile\<close>.
  The fields \<^verbatim>\<open>email\<close>, \<^verbatim>\<open>password_hash\<close> and \<^verbatim>\<open>wallet_amount\<close> of every user, and the
  mpin of every other user, are free to differ.\<close>

definition same_public :: "string \<Rightarrow> user \<Rightarrow> user \<Rightarrow> bool" where
  "same_public mobile u v =
     (mobile_number u = mobile_number v \<and> name u = name v
      \<and> (mobile_number u = mobile \<longrightarrow> mpin u = mpin v))"

text \<open>Two stored users, as two calls of \<^verbatim>\<open>POST /signup\<close> leave them (with list reversal
  standing in for the digest), used to run the handlers on concrete directories.\<close>

definition asha :: user where
  "asha = \<lparr>mobile_number = ''9800000001'', name = ''Asha'', email = ''asha@example.org'',
           password_hash = ''terces'', mpin = ''1234'', wallet_amount = 0\<rparr>"

definition bina :: user where
  "bina = \<lparr>mobile_number = ''9800000002'', name = ''Bina'', email = ''bina@example.org'',
           password_hash = ''rehto'', mpin = ''4321'', wallet_amount = 0\<rparr>"

subsection \<open>Strings of the runtime\<close>

text \<open>
  \<^verbatim>\<open>String.prototype.trim\<close> removes white space and line terminators from both ends.
  Below U+0100 these are the code units 09 to 0D, 20 and A0.
\<close>

definition is_ws :: "char \<Rightarrow> bool" where
  "is_ws c = (c \<in> set [CHR 0x09, CHR 0x0A, CHR 0x0B, CHR 0x0C, CHR 0x0D, CHR 0x20, CHR 0xA0])"

definition trim :: "string \<Rightarrow> string" where
  "trim s = rev (dropWhile is_ws (rev (dropWhile is_ws s)))"

text \<open>\<^verbatim>\<open>s.split(sep)\<close> for a separator of one character: the pieces between the
  separators, at least one piece (so the second branch of the \<open>case\<close> is never taken).\<close>

fun split_on :: "char \<Rightarrow> string \<Rightarrow> string list" where
  "split_on sep [] = [[]]"
| "split_on sep (c # cs) =
     (if c = sep then [] # split_on sep cs
      else (case split_on sep cs of w # ws \<Rightarrow> (c # w) # ws | [] \<Rightarrow> [[c]]))"

text \<open>\<^verbatim>\<open>xs.join(sep)\<close> for a separator of one character.\<close>

fun join :: "char \<Rightarrow> string list \<Rightarrow> string" where
  "join sep [] = []"
| "join sep [x] = x"
| "join sep (x # y # ys) = x @ sep # join sep (y # ys)"

text \<open>\<^verbatim>\<open>xs[i]\<close> on an array of strings: \<^verbatim>\<open>undefined\<close> (here \<open>None\<close>) beyond the end.\<close>

definition nth_opt :: "'a list \<Rightarrow> nat \<Rightarrow> 'a option" where
  "nth_opt xs i = (if i < length xs then Some (xs ! i) else None)"

text \<open>The decimal digits that a template literal writes for an array length.\<close>

fun show_nat :: "nat \<Rightarrow> string" where
  "show_nat n =
     (if n < 10 then [''0123456789'' ! n]
      else show_nat (n div 10) @ [''0123456789'' ! (n mod 10)])"

subsection \<open>JSON values and objects\<close>

text \<open>
  The values that the handlers put into their answers: a number that \<^verbatim>\<open>Number\<close> or
  \<^verbatim>\<open>parseFloat\<close> computed (of the parameter type \<open>'n\<close>), an array length, a string, and
  \<^verbatim>\<open>undefined\<close>. An object is a map from its keys.
\<close>

datatype 'n jsval = JNum 'n | JInt nat | JStr string | JUndefined

type_synonym 'n obj = "string \<rightharpoonup> 'n jsval"

definition str_or_undefined :: "string option \<Rightarrow> 'n jsval" where
  "str_or_undefined cell = (case cell of None \<Rightarrow> JUndefined | Some s \<Rightarrow> JStr s)"

subsection \<open>Flat-file report store\<close>

text \<open>
  The state of the store is the file \<^verbatim>\<open>reports.csv\<close>: \<open>None\<close> when the file does not
  exist, otherwise its text. At start-up each variant creates a missing file with its
  header row.
\<close>

type_synonym store = "string option"

definition headerA :: string where
  "headerA = ''id,image_filename,latitude,longitude,location,description,severity,humanitarian,disaster_or_not,urgency_level''"

definition headerB :: string where
  "headerB = ''id,image_filename,latitude,longitude,location,description,status''"

definition initStore :: "string \<Rightarrow> store \<Rightarrow> store" where
  "initStore header fs = (case fs of None \<Rightarrow> Some (header @ ''\<newline>'') | Some csvData \<Rightarrow> Some csvData)"

text \<open>\<^verbatim>\<open>csvData.trim().split("\n")\<close>, the line list every handler works on.\<close>

definition lines_of :: "string \<Rightarrow> string list" where
  "lines_of csvData = split_on CHR ''\<newline>'' (trim csvData)"

text \<open>
  The multipart form of \<^verbatim>\<open>POST /user/report/\<close>: \<open>image\<close> is \<^verbatim>\<open>image.filename\<close>, the name
  under which the upload was saved, and \<open>None\<close> when the request has no file part.
\<close>

record report_form =
  image :: "string option"
  latitude :: string
  longitude :: string
  location :: string
  description :: string

text \<open>
  \<^verbatim>\<open>POST /user/report/\<close> of variant B, lines 53 to 82 of \<^verbatim>\<open>src/unnamed/part_000\<close>. A
  missing store file makes \<^verbatim>\<open>readFileSync\<close> throw, which the handler answers with 500.
\<close>

definition postReportB ::
  "(string \<Rightarrow> 'n) \<Rightarrow> report_form \<Rightarrow> store \<Rightarrow> 'n obj response \<times> store" where
  "postReportB parseFloat req fs =
     (case image req of
        None \<Rightarrow> (Fail 400 ''Image file is required.'', fs)
      | Some filename \<Rightarrow>
          (case fs of
             None \<Rightarrow> (Fail 500 ''Failed to upload report.'', fs)
           | Some csvData \<Rightarrow>
               (let lines = lines_of csvData;
                    reportId = length lines;
                    newRow = show_nat reportId @ '','' @ filename @ '','' @ latitude req @ '',''
                      @ longitude req @ '','' @ location req @ '','' @ description req
                      @ '',not_resolved\<newline>''
                in (Ok200 [''id'' \<mapsto> JInt reportId,
                           ''image_filename'' \<mapsto> JStr filename,
                           ''latitude'' \<mapsto> JNum (parseFloat (latitude req)),
                           ''longitude'' \<mapsto> JNum (parseFloat (longitude req)),
                           ''location'' \<mapsto> JStr (location req),
                           ''description'' \<mapsto> JStr (description req),
                           ''status'' \<mapsto> JStr ''not_resolved''],
                    Some (csvData @ newRow)))))"

text \<open>
  \<^verbatim>\<open>POST /user/report/\<close> of variant A, lines 81 to 153 of \<^verbatim>\<open>src/backend/server.js\<close>.
  \<open>predict\<close> gives, for the model named in the form (\<^verbatim>\<open>damage\<close>, \<^verbatim>\<open>humanitarian\<close>,
  \<^verbatim>\<open>text\<close>), the \<^verbatim>\<open>predicted_label\<close> of the service's answer, or \<open>None\<close> when the call
  fails; a failed call is answered with 500 before anything is written.
\<close>

definition postReportA ::
  "(string \<Rightarrow> 'n) \<Rightarrow> (string \<Rightarrow> string option) \<Rightarrow> report_form \<Rightarrow> store
     \<Rightarrow> 'n obj response \<times> store" where
  "postReportA parseFloat predict req fs =
     (case image req of
        None \<Rightarrow> (Fail 400 ''Image file is required.'', fs)
      | Some filename \<Rightarrow>
          (case fs of
             None \<Rightarrow> (Fail 500 ''Failed to upload report.'', fs)
           | Some csvData \<Rightarrow>
               (let lines = lines_of csvData;
                    reportId = length lines
                in case predict ''damage'' of
                     None \<Rightarrow> (Fail 500 ''Failed to upload report.'', fs)
                   | Some severityPrediction \<Rightarrow>
                 (case predict ''humanitarian'' of
                     None \<Rightarrow> (Fail 500 ''Failed to upload report.'', fs)
                   | Some humanitarianPrediction \<Rightarrow>
                 (case predict ''text'' of
                     None \<Rightarrow> (Fail 500 ''Failed to upload report.'', fs)
                   | Some disasterPrediction \<Rightarrow>
                 (let urgencyLevel = getUrgencyLevel humanitarianPrediction severityPrediction;
                      newRow = show_nat reportId @ '','' @ filename @ '','' @ latitude req @ '',''
                        @ longitude req @ '','' @ location req @ '','' @ description req @ '',''
                        @ severityPrediction @ '','' @ humanitarianPrediction @ '',''
                        @ disasterPrediction @ '','' @ urgencyLevel @ ''\<newline>''
                  in (Ok200 [''id'' \<mapsto> JInt reportId,
                             ''image_filename'' \<mapsto> JStr filename,
                             ''latitude'' \<mapsto> JNum (parseFloat (latitude req)),
                             ''longitude'' \<mapsto> JNum (parseFloat (longitude req)),
                             ''location'' \<mapsto> JStr (location req),
                             ''description'' \<mapsto> JStr (description req),
                             ''severity'' \<mapsto> JStr severityPrediction,
                             ''humanitarian'' \<mapsto> JStr humanitarianPrediction,
                             ''disaster_or_not'' \<mapsto> JStr disasterPrediction,
                             ''urgency_level'' \<mapsto> JStr urgencyLevel],
                      Some (csvData @ newRow))))))))"

text \<open>
  \<^verbatim>\<open>GET /user/reports/\<close>, the same text in both variants. \<^verbatim>\<open>Number\<close> is a parameter; its
  argument is \<open>None\<close> where the row has no cell at the header's index. An assignment to
  the key \<^verbatim>\<open>__proto__\<close> with a value that is no object creates no property.
\<close>

definition assign :: "'n obj \<Rightarrow> string \<Rightarrow> 'n jsval \<Rightarrow> 'n obj" where
  "assign report header v = (if header = ''__proto__'' then report else report(header \<mapsto> v))"

definition coerce :: "(string option \<Rightarrow> 'n) \<Rightarrow> string \<Rightarrow> string option \<Rightarrow> 'n jsval" where
  "coerce Number header cell =
     (if header = ''latitude'' \<or> header = ''longitude'' \<or> header = ''id''
      then JNum (Number cell) else str_or_undefined cell)"

definition parseRow :: "(string option \<Rightarrow> 'n) \<Rightarrow> string list \<Rightarrow> string list \<Rightarrow> 'n obj" where
  "parseRow Number headers row =
     fold (\<lambda>(header, index) report. assign report header (coerce Number header (nth_opt row index)))
       (zip headers [0..<length headers]) Map.empty"

definition getReports :: "(string option \<Rightarrow> 'n) \<Rightarrow> store \<Rightarrow> 'n obj list response" where
  "getReports Number fs =
     (case fs of
        None \<Rightarrow> Fail 500 ''Failed to fetch reports.''
      | Some csvData \<Rightarrow>
          (let lines = lines_of csvData;
               headers = split_on CHR '','' (hd lines)
           in Ok200 (map (\<lambda>line. parseRow Number headers (split_on CHR '','' line)) (tl lines))))"

text \<open>
  \<^verbatim>\<open>PUT /admin/report/:report_id/status\<close> of variant B, lines 120 to 164 of
  \<^verbatim>\<open>src/unnamed/part_000\<close>. \<^verbatim>\<open>row[6] = status\<close> on a shorter row extends it; the holes
  in between are written by \<^verbatim>\<open>join\<close> as empty strings. The file is written before the
  answer is built; if no updated line started with the id and a comma, the split of
  \<^verbatim>\<open>undefined\<close> would throw and the answer would be 500 with the file already written
  (lemma \<open>updateStatus_answers\<close> shows that this does not happen).
\<close>

definition setStatus :: "string list \<Rightarrow> string \<Rightarrow> string list" where
  "setStatus row status =
     (if 6 < length row then row[6 := status]
      else row @ replicate (6 - length row) [] @ [status])"

definition updateLine :: "string \<Rightarrow> string \<Rightarrow> string \<Rightarrow> string" where
  "updateLine reportId status line =
     (let row = split_on CHR '','' line
      in if hd row = reportId then join CHR '','' (setStatus row status) else line)"

definition reportFound :: "string \<Rightarrow> string list \<Rightarrow> bool" where
  "reportFound reportId lines =
     list_ex (\<lambda>line. hd (split_on CHR '','' line) = reportId) (tl lines)"

definition updateStatus ::
  "(string option \<Rightarrow> 'n) \<Rightarrow> string \<Rightarrow> string \<Rightarrow> store \<Rightarrow> 'n obj response \<times> store" where
  "updateStatus Number reportId status fs =
     (case fs of
        None \<Rightarrow> (Fail 500 ''Failed to update report status.'', fs)
      | Some csvData \<Rightarrow>
          (let lines = lines_of csvData;
               updatedLines = hd lines # map (updateLine reportId status) (tl lines)
           in if \<not> reportFound reportId lines then (Fail 404 ''Report not found.'', fs)
              else
                (let written = Some (join CHR ''\<newline>'' updatedLines @ ''\<newline>'')
                 in case find (\<lambda>line. take (length reportId + 1) line = reportId @ '','')
                           updatedLines of
                      None \<Rightarrow> (Fail 500 ''Failed to update report status.'', written)
                    | Some updatedReport \<Rightarrow>
                        (let row = split_on CHR '','' updatedReport
                         in (Ok200 [''id'' \<mapsto> JNum (Number (nth_opt row 0)),
                                    ''image_filename'' \<mapsto> str_or_undefined (nth_opt row 1),
                                    ''latitude'' \<mapsto> JNum (Number (nth_opt row 2)),
                                    ''longitude'' \<mapsto> JNum (Number (nth_opt row 3)),
                                    ''location'' \<mapsto> str_or_undefined (nth_opt row 4),
                                    ''description'' \<mapsto> str_or_undefined (nth_opt row 5),
                                    ''status'' \<mapsto> str_or_undefined (nth_opt row 6)],
                             written)))))"

text \<open>The cells of the header line and of the data lines, as the handlers split them.\<close>

definition header_cells :: "string \<Rightarrow> string list" where
  "header_cells csvData = split_on CHR '','' (hd (lines_of csvData))"

definition data_rows :: "string \<Rightarrow> string list list" where
  "data_rows csvData = map (split_on CHR '','') (tl (lines_of csvData))"

text \<open>Two store files of variant B: one whose only data row has two cells, and one as
  a single report leaves it.\<close>

definition short_store :: string where
  "short_store = headerB @ ''\<newline>1,a.png\<newline>''"

definition one_report :: string where
  "one_report = headerB @ ''\<newline>1,17-a.png,12.9,77.6,MG Road,Flood,not_resolved\<newline>''"

text \<open>The first line of the file's text is the header row, newline included.\<close>

definition starts_with_header :: "string \<Rightarrow> string \<Rightarrow> bool" where
  "starts_with_header header csvData = (take (Suc (length header)) csvData = header @ ''\<newline>'')"

text \<open>
  A store file of variant B whose text begins with the header row and ends with a
  newline, as start-up creates it and as the handlers of variant B leave it. (Start-up
  keeps a file that exists, whatever its text.)
\<close>

definition headed_store :: "string \<Rightarrow> bool" where
  "headed_store csvData =
     (starts_with_header headerB csvData \<and> last csvData = CHR ''\<newline>'')"

text \<open>The number that a string of decimal digits denotes.\<close>

definition decimal :: "string \<Rightarrow> nat" where
  "decimal s = foldl (\<lambda>value c. 10 * value + (of_char c - 48)) 0 s"

text \<open>The form of the scenario of the specification, saved under a sample file name.\<close>

definition flood_report :: report_form where
  "flood_report = \<lparr>image = Some ''17-a.png'', latitude = ''12.9'', longitude = ''77.6'',
                    location = ''MG Road'', description = ''Flood''\<rparr>"

subsection \<open>Sequences of submissions\<close>

text \<open>The file's text ends with a newline, and the line that this newline ends holds a
  character that is no white space.\<close>

definition terminated :: "string \<Rightarrow> bool" where
  "terminated csvData =
     (case rev csvData of
        [] \<Rightarrow> False
      | c # before \<Rightarrow>
          c = CHR ''\<newline>''
          \<and> \<not> list_all is_ws (takeWhile (\<lambda>x. x \<noteq> CHR ''\<newline>'') before))"

text \<open>The lines of a newline-ended text as they stand in the file, before the right end
  of the last one is trimmed.\<close>

definition raw_lines :: "string \<Rightarrow> string list" where
  "raw_lines csvData = split_on CHR ''\<newline>'' (butlast (dropWhile is_ws csvData))"

text \<open>The property of the file's text that makes the line count of a handler the
  number of lines in the file.\<close>

definition counts_lines :: "string \<Rightarrow> bool" where
  "counts_lines csvData =
     ((\<exists>x\<in>set csvData. \<not> is_ws x) \<and> last csvData = CHR ''\<newline>''
      \<and> length (lines_of csvData) = length (raw_lines csvData))"

text \<open>Requests handled one after the other, each on the store the one before left behind:
  the answers in order, and the last store.\<close>

fun postAll :: "('req \<Rightarrow> store \<Rightarrow> 'a \<times> store) \<Rightarrow> 'req list \<Rightarrow> store \<Rightarrow> 'a list \<times> store" where
  "postAll handler [] fs = ([], fs)"
| "postAll handler (req # reqs) fs =
     (let (answer, fs') = handler req fs;
          (answers, fs'') = postAll handler reqs fs'
      in (answer # answers, fs''))"

text \<open>The \<^verbatim>\<open>id\<close> in the body of an answer with status 200.\<close>

definition answer_id :: "'n obj response \<Rightarrow> nat option" where
  "answer_id answer =
     (case answer of
        Ok200 body \<Rightarrow> (case body ''id'' of Some (JInt n) \<Rightarrow> Some n | _ \<Rightarrow> None)
      | Fail code message \<Rightarrow> None)"

text \<open>Form fields and labels that stay on one line.\<close>

definition no_newline :: "string \<Rightarrow> bool" where
  "no_newline s = (CHR ''\<newline>'' \<notin> set s)"

definition one_line_form :: "report_form \<Rightarrow> bool" where
  "one_line_form req =
     ((case image req of None \<Rightarrow> False | Some filename \<Rightarrow> no_newline filename)
      \<and> no_newline (latitude req) \<and> no_newline (longitude req)
      \<and> no_newline (location req) \<and> no_newline (description req))"

definition one_line_label :: "string option \<Rightarrow> bool" where
  "one_line_label answer = (case answer of None \<Rightarrow> False | Some label \<Rightarrow> no_newline label)"

text \<open>A request on which the handler, whatever the file's text, appends one line that
  begins with the line count and a comma, and answers with that count as \<^verbatim>\<open>id\<close>.\<close>

definition appends_row :: "('req \<Rightarrow> store \<Rightarrow> 'n obj response \<times> store) \<Rightarrow> 'req \<Rightarrow> bool" where
  "appends_row handler req =
     (\<forall>csvData. \<exists>answer cells.
        handler req (Some csvData)
          = (answer, Some (csvData @ (show_nat (length (lines_of csvData)) @ CHR '','' # cells)
                             @ ''\<newline>''))
        \<and> answer_id answer = Some (length (lines_of csvData))
        \<and> no_newline cells \<and> cells \<noteq> [] \<and> \<not> is_ws (last cells))"

text \<open>What sequential submissions are expected to give from a store of \<open>k\<close> lines: the ids
  \<open>k, \<dots>, k + N - 1\<close> in the answers, \<open>N\<close> more lines in the file, and these ids as the first
  cells of the new lines. (With the header as one of the \<open>k\<close> lines, the store holds
  \<open>k - 1\<close> data rows and the ids are those after \<open>k - 1\<close>.)\<close>

definition ids_follow :: "'n obj response list \<times> store \<Rightarrow> string \<Rightarrow> nat \<Rightarrow> bool" where
  "ids_follow result csvData N =
     (let k = length (lines_of csvData)
      in map answer_id (fst result) = map Some [k..<k + N]
         \<and> (case snd result of
              None \<Rightarrow> False
            | Some csvData' \<Rightarrow>
                length (lines_of csvData') = k + N
                \<and> (\<forall>i<N. hd (split_on CHR '','' (lines_of csvData' ! (k + i))) = show_nat (k + i))))"

text \<open>A form whose description has two lines, and the labels of a prediction service.\<close>

definition two_line_report :: report_form where
  "two_line_report = \<lparr>image = Some ''18-b.png'', latitude = ''27.7'', longitude = ''85.3'',
                       location = ''Ring Road'', description = ''Bridge down\<newline>two cars''\<rparr>"

definition sample_predict :: "string \<Rightarrow> string option" where
  "sample_predict model =
     map_of [(''damage'', ''severe''), (''humanitarian'', ''infrastructure_and_utility_damage''),
             (''text'', ''disaster'')] model"

subsection \<open>The server as a whole\<close>

text \<open>
  The state that the requests share is the array of users and the store file. A request
  is one call of a route with its fields (in variant A a report submission comes with the
  answers of the prediction service); the server handles it with the handler of the
  route, which gives an answer and the next state. Variant A has no status route.
\<close>

datatype 'n answer =
    SignupAnswer "(string \<times> user) response"
  | LoginAnswer "(string \<times> (string \<times> string) \<times> (string \<times> string) list) response"
  | ReportAnswer "'n obj response"
  | ReportsAnswer "'n obj list response"

datatype requestB =
    Signup string string string "string option" string
  | Login string string
  | PostReport report_form
  | GetReports
  | PutStatus string string

datatype requestA =
    SignupA string string string "string option" string
  | LoginA string string
  | PostReportA report_form "string \<Rightarrow> string option"
  | GetReportsA

type_synonym server = "user list \<times> store"

fun serveB ::
  "(string \<Rightarrow> string) \<Rightarrow> (string \<Rightarrow> 'n) \<Rightarrow> (string option \<Rightarrow> 'n) \<Rightarrow> requestB \<Rightarrow> server
     \<Rightarrow> 'n answer \<times> server" where
  "serveB hashPassword parseFloat Number (Signup mobile nm em password pin) (users, fs) =
     (let (answer, users') = signup hashPassword mobile nm em password pin users
      in (SignupAnswer answer, (users', fs)))"
| "serveB hashPassword parseFloat Number (Login mobile pin) (users, fs) =
     (LoginAnswer (login mobile pin users), (users, fs))"
| "serveB hashPassword parseFloat Number (PostReport req) (users, fs) =
     (let (answer, fs') = postReportB parseFloat req fs
      in (ReportAnswer answer, (users, fs')))"
| "serveB hashPassword parseFloat Number GetReports (users, fs) =
     (ReportsAnswer (getReports Number fs), (users, fs))"
| "serveB hashPassword parseFloat Number (PutStatus reportId status) (users, fs) =
     (let (answer, fs') = updateStatus Number reportId status fs
      in (ReportAnswer answer, (users, fs')))"

fun serveA ::
  "(string \<Rightarrow> string) \<Rightarrow> (string \<Rightarrow> 'n) \<Rightarrow> (string option \<Rightarrow> 'n) \<Rightarrow> requestA \<Rightarrow> server
     \<Rightarrow> 'n answer \<times> server" where
  "serveA hashPassword parseFloat Number (SignupA mobile nm em password pin) (users, fs) =
     (let (answer, users') = signup hashPassword mobile nm em password pin users
      in (SignupAnswer answer, (users', fs)))"
| "serveA hashPassword parseFloat Number (LoginA mobile pin) (users, fs) =
     (LoginAnswer (login mobile pin users), (users, fs))"
| "serveA hashPassword parseFloat Number (PostReportA req predict) (users, fs) =
     (let (answer, fs') = postReportA parseFloat predict req fs
      in (ReportAnswer answer, (users, fs')))"
| "serveA hashPassword parseFloat Number GetReportsA (users, fs) =
     (ReportsAnswer (getReports Number fs), (users, fs))"

text \<open>The state after a sequence of requests, handled one at a time.\<close>

fun run :: "('r \<Rightarrow> 's \<Rightarrow> 'a \<times> 's) \<Rightarrow> 'r list \<Rightarrow> 's \<Rightarrow> 's" where
  "run serve [] s = s"
| "run serve (r # rs) s = run serve rs (snd (serve r s))"

text \<open>Every stored user has an empty wallet.\<close>

definition wallets_zero :: "server \<Rightarrow> bool" where
  "wallets_zero s = list_all (\<lambda>u. wallet_amount u = 0) (fst s)"

section \<open>Properties\<close>

subsection \<open>Urgency classifier\<close>

lemma urgency_unknown_humanitarian:
  "h \<notin> set humanitarian_categories \<Longrightarrow> getUrgencyLevel h s = ''N/A''"
  by (simp add: getUrgencyLevel_def humanitarian_categories_def)

lemma urgency_unknown_severity:
  "s \<notin> set severity_categories \<Longrightarrow> getUrgencyLevel h s = ''N/A''"
  by (simp add: getUrgencyLevel_def severity_categories_def)

text \<open>
  Claim C1. On the twelve pairs of a humanitarian category and a severity category the
  classifier returns the tier of the table of section 4.2 of the specification, and on
  every pair with a string outside the categories it returns \<^verbatim>\<open>N/A\<close>; being a total
  function, it raises nothing.
\<close>

theorem getUrgencyLevel_table:
  "getUrgencyLevel ''affected_injured_or_dead_people'' ''severe'' = ''5 (Critical)''
   \<and> getUrgencyLevel ''affected_injured_or_dead_people'' ''mild'' = ''4 (High)''
   \<and> getUrgencyLevel ''affected_injured_or_dead_people'' ''little_or_none'' = ''3 (Moderate)''
   \<and> getUrgencyLevel ''infrastructure_and_utility_damage'' ''severe'' = ''4 (High)''
   \<and> getUrgencyLevel ''infrastructure_and_utility_damage'' ''mild'' = ''3 (Moderate)''
   \<and> getUrgencyLevel ''infrastructure_and_utility_damage'' ''little_or_none'' = ''2 (Low)''
   \<and> getUrgencyLevel ''rescue_volunteering_or_donation_effort'' ''severe'' = ''3 (Moderate)''
   \<and> getUrgencyLevel ''rescue_volunteering_or_donation_effort'' ''mild'' = ''2 (Low)''
   \<and> getUrgencyLevel ''rescue_volunteering_or_donation_effort'' ''little_or_none'' = ''1 (Minimal)''
   \<and> getUrgencyLevel ''not_humanitarian'' ''severe'' = ''2 (Low)''
   \<and> getUrgencyLevel ''not_humanitarian'' ''mild'' = ''1 (Minimal)''
   \<and> getUrgencyLevel ''not_humanitarian'' ''little_or_none'' = ''1 (Minimal)''
   \<and> (\<forall>h s. h \<notin> set humanitarian_categories \<or> s \<notin> set severity_categories
          \<longrightarrow> getUrgencyLevel h s = ''N/A'')"
proof -
  have unknown: "\<forall>h s. h \<notin> set humanitarian_categories \<or> s \<notin> set severity_categories
          \<longrightarrow> getUrgencyLevel h s = ''N/A''"
    using urgency_unknown_humanitarian urgency_unknown_severity by blast
  show ?thesis
    unfolding getUrgencyLevel_def [of "''affected_injured_or_dead_people''"]
      getUrgencyLevel_def [of "''infrastructure_and_utility_damage''"]
      getUrgencyLevel_def [of "''rescue_volunteering_or_donation_effort''"]
      getUrgencyLevel_def [of "''not_humanitarian''"]
    using unknown by simp
qed

theorem getUrgencyLevel_table_witness:
  "''unknown'' \<notin> set humanitarian_categories \<and> getUrgencyLevel ''unknown'' ''severe'' = ''N/A''"
  using getUrgencyLevel_table
  by (simp add: humanitarian_categories_def)

subsection \<open>User directory\<close>

lemma find_None_mobile:
  "(find (\<lambda>u. mobile_number u = m) users = None) = (\<forall>u\<in>set users. mobile_number u \<noteq> m)"
  by (auto simp: find_None_iff)

lemma signup_new:
  "\<forall>u\<in>set users. mobile_number u \<noteq> m \<Longrightarrow>
   signup h m n e (Some pw) pin users =
     (Ok200 (''User created successfully'',
        \<lparr>mobile_number = m, name = n, email = e, password_hash = h pw, mpin = pin,
         wallet_amount = 0\<rparr>),
      users @ [\<lparr>mobile_number = m, name = n, email = e, password_hash = h pw, mpin = pin,
         wallet_amount = 0\<rparr>])"
  using find_None_mobile [of m users] by (simp add: signup_def Let_def)

lemma signup_throws:
  "\<forall>u\<in>set users. mobile_number u \<noteq> m \<Longrightarrow>
   signup h m n e None pin users = (Fail 500 ''Failed to sign up user.'', users)"
  using find_None_mobile [of m users] by (simp add: signup_def)

lemma signup_taken:
  "\<exists>u\<in>set users. mobile_number u = m \<Longrightarrow>
   signup h m n e password pin users = (Fail 400 ''Mobile number already exists.'', users)"
  using find_None_mobile [of m users] by (auto simp: signup_def split: option.splits)

lemma directory_distinct: "directory users \<Longrightarrow> distinct (map mobile_number users)"
proof (induction rule: directory.induct)
  case fresh
  show ?case by simp
next
  case (after_signup users hashPassword mobile nm em password pin)
  show ?case
  proof (cases "\<exists>u\<in>set users. mobile_number u = mobile")
    case True
    then show ?thesis using after_signup.IH by (simp add: signup_taken)
  next
    case False
    then have "\<forall>u\<in>set users. mobile_number u \<noteq> mobile" by simp
    then show ?thesis using after_signup.IH
      by (cases password) (auto simp: signup_new signup_throws)
  qed
qed

lemma find_distinct_mobile:
  "distinct (map mobile_number users) \<Longrightarrow> u \<in> set users \<Longrightarrow>
   find (\<lambda>v. mobile_number v = mobile_number u) users = Some u"
proof (induction users)
  case Nil
  then show ?case by simp
next
  case (Cons a users)
  then show ?case by (cases "a = u") (auto simp: image_iff)
qed

text \<open>
  Claim C7 says that a signup with a number that no stored user has always succeeds. On
  the empty directory, a signup whose body has no password is answered 500 and nothing
  is stored.
\<close>

theorem signup_no_password_counterexample:
  "signup rev ''9800000001'' ''Asha'' ''asha@example.org'' None ''1234'' []
     = (Fail 500 ''Failed to sign up user.'', [])"
  by (simp add: signup_def)

text \<open>
  Claim C7, amended. In every state of the directory: a signup with a number that no
  stored user has and a password that is a string answers 200 with the stored record,
  whose wallet is 0, and appends exactly that record; a signup with such a number and a
  password that is missing or is no string answers 500 and stores nothing; a signup with
  a stored number answers 400, whatever the password, and leaves the directory as it was.
\<close>

theorem signup_unused_or_conflict:
  "((\<forall>u\<in>set users. mobile_number u \<noteq> m) \<longrightarrow>
      (\<exists>newUser.
         signup h m n e (Some pw) pin users =
           (Ok200 (''User created successfully'', newUser), users @ [newUser])
         \<and> wallet_amount newUser = 0 \<and> mobile_number newUser = m \<and> name newUser = n
         \<and> email newUser = e \<and> password_hash newUser = h pw \<and> mpin newUser = pin)
      \<and> signup h m n e None pin users = (Fail 500 ''Failed to sign up user.'', users))
   \<and> ((\<exists>u\<in>set users. mobile_number u = m) \<longrightarrow>
      signup h m n e password pin users = (Fail 400 ''Mobile number already exists.'', users))"
  by (simp add: signup_new signup_throws signup_taken)

theorem signup_unused_or_conflict_witness:
  "signup rev ''9800000001'' ''Asha'' ''asha@example.org'' (Some ''secret'') ''1234'' []
       = (Ok200 (''User created successfully'', asha), [asha])
   \<and> wallet_amount asha = 0
   \<and> signup rev ''9800000002'' ''Bina'' ''bina@example.org'' None ''4321'' [asha]
       = (Fail 500 ''Failed to sign up user.'', [asha])
   \<and> signup rev ''9800000001'' ''Bina'' ''bina@example.org'' None ''4321'' [asha]
       = (Fail 400 ''Mobile number already exists.'', [asha])"
  using signup_unused_or_conflict [of "[]" "''9800000001''" rev "''Asha''" "''asha@example.org''"
      "''secret''" "''1234''" None]
    signup_unused_or_conflict [of "[asha]" "''9800000002''" rev "''Bina''" "''bina@example.org''"
      "''other''" "''4321''" None]
    signup_unused_or_conflict [of "[asha]" "''9800000001''" rev "''Bina''" "''bina@example.org''"
      "''other''" "''4321''" None]
  by (auto simp: asha_def)

lemma login_unknown:
  "\<forall>u\<in>set users. mobile_number u \<noteq> m \<Longrightarrow> login m p users = Fail 404 ''User not found.''"
  using find_None_mobile [of m users] by (simp add: login_def)

lemma login_found:
  "find (\<lambda>u. mobile_number u = m) users = Some u \<Longrightarrow>
   login m p users =
     (if mpin u \<noteq> p then Fail 401 ''Invalid MPIN.''
      else Ok200 (''Login successful'', (mobile_number u, name u),
             map (\<lambda>v. (mobile_number v, name v)) (filter (\<lambda>v. mobile_number v \<noteq> m) users)))"
  by (simp add: login_def)

text \<open>
  Claim C8. In every state of the directory: a login with a number that no stored user
  has answers 404; a login with the number of a stored user and another mpin than the
  stored one answers 401; a login with the number and the mpin of a stored user answers
  200 with the (number, name) pairs of all stored users but the caller as contacts.
\<close>

theorem login_cases:
  assumes "directory users"
  shows "((\<forall>u\<in>set users. mobile_number u \<noteq> m) \<longrightarrow>
            login m p users = Fail 404 ''User not found.'')
         \<and> (\<forall>u\<in>set users. mobile_number u = m \<and> mpin u \<noteq> p \<longrightarrow>
            login m p users = Fail 401 ''Invalid MPIN.'')
         \<and> (\<forall>u\<in>set users. mobile_number u = m \<and> mpin u = p \<longrightarrow>
            login m p users =
              Ok200 (''Login successful'', (m, name u),
                map (\<lambda>v. (mobile_number v, name v))
                  (filter (\<lambda>v. mobile_number v \<noteq> m) users)))"
proof -
  have d: "distinct (map mobile_number users)"
    using assms by (rule directory_distinct)
  have f: "find (\<lambda>v. mobile_number v = m) users = Some u"
    if "u \<in> set users" "mobile_number u = m" for u
    using find_distinct_mobile [OF d that(1)] that(2) by simp
  show ?thesis
    using login_unknown [of users m p] f by (auto simp: login_found)
qed

lemma directory_asha_bina: "directory [asha, bina]"
proof -
  have "directory (snd (signup rev ''9800000001'' ''Asha'' ''asha@example.org''
          (Some ''secret'') ''1234'' []))"
    by (rule directory.after_signup [OF directory.fresh])
  then have one: "directory [asha]"
    by (simp add: signup_def asha_def Let_def)
  have "directory (snd (signup rev ''9800000002'' ''Bina'' ''bina@example.org''
          (Some ''other'') ''4321'' [asha]))"
    by (rule directory.after_signup [OF one])
  then show ?thesis
    by (simp add: signup_def asha_def bina_def Let_def)
qed

theorem login_cases_witness:
  "directory [asha, bina]
   \<and> login ''9800000003'' ''1234'' [asha, bina] = Fail 404 ''User not found.''
   \<and> login ''9800000002'' ''1234'' [asha, bina] = Fail 401 ''Invalid MPIN.''
   \<and> login ''9800000002'' ''4321'' [asha, bina]
       = Ok200 (''Login successful'', (''9800000002'', ''Bina''), [(''9800000001'', ''Asha'')])"
  using directory_asha_bina
    login_cases [OF directory_asha_bina, of "''9800000003''" "''1234''"]
    login_cases [OF directory_asha_bina, of "''9800000002''" "''1234''"]
    login_cases [OF directory_asha_bina, of "''9800000002''" "''4321''"]
  by (simp add: asha_def bina_def)

lemma same_public_find:
  "list_all2 (same_public m) us vs \<Longrightarrow>
   rel_option (same_public m)
     (find (\<lambda>u. mobile_number u = m) us) (find (\<lambda>u. mobile_number u = m) vs)"
  by (induction rule: list_all2_induct) (auto simp: same_public_def)

lemma same_public_contacts:
  "list_all2 (same_public m) us vs \<Longrightarrow>
   map (\<lambda>u. (mobile_number u, name u)) (filter (\<lambda>u. mobile_number u \<noteq> m) us)
     = map (\<lambda>u. (mobile_number u, name u)) (filter (\<lambda>u. mobile_number u \<noteq> m) vs)"
  by (induction rule: list_all2_induct) (auto simp: same_public_def)

text \<open>
  Claim C10. The answer of a login, whatever its status, is a function of the stored
  numbers and names and of the mpin stored under the supplied number: two directories
  that differ only in password hashes, e-mail addresses, wallets and the mpins of users
  stored under other numbers get the same answer.
\<close>

theorem login_noninterference:
  assumes "list_all2 (same_public m) us vs"
  shows "login m p us = login m p vs"
proof -
  have contacts:
    "map (\<lambda>u. (mobile_number u, name u)) (filter (\<lambda>u. mobile_number u \<noteq> m) us)
       = map (\<lambda>u. (mobile_number u, name u)) (filter (\<lambda>u. mobile_number u \<noteq> m) vs)"
    using assms by (rule same_public_contacts)
  have found: "rel_option (same_public m)
     (find (\<lambda>u. mobile_number u = m) us) (find (\<lambda>u. mobile_number u = m) vs)"
    using assms by (rule same_public_find)
  show ?thesis
  proof (cases "find (\<lambda>u. mobile_number u = m) us")
    case None
    with found have "find (\<lambda>u. mobile_number u = m) vs = None"
      by (cases "find (\<lambda>u. mobile_number u = m) vs") auto
    with None show ?thesis by (simp add: login_def)
  next
    case (Some u)
    with found obtain v where v: "find (\<lambda>u. mobile_number u = m) vs = Some v"
      and uv: "same_public m u v"
      by (cases "find (\<lambda>u. mobile_number u = m) vs") auto
    from Some have "mobile_number u = m"
      by (auto simp: find_Some_iff)
    with uv have "mobile_number v = mobile_number u" "name v = name u" "mpin v = mpin u"
      by (simp_all add: same_public_def)
    with Some v contacts show ?thesis
      by (simp add: login_def)
  qed
qed

theorem login_noninterference_witness:
  "list_all2 (same_public ''9800000002'') [asha, bina]
     [asha\<lparr>email := ''a@b.c'', password_hash := ''0000'', mpin := ''9999'', wallet_amount := 7\<rparr>,
      bina\<lparr>email := ''x@y.z'', password_hash := ''ffff'', wallet_amount := 3\<rparr>]
   \<and> login ''9800000002'' ''4321''
        [asha\<lparr>email := ''a@b.c'', password_hash := ''0000'', mpin := ''9999'', wallet_amount := 7\<rparr>,
         bina\<lparr>email := ''x@y.z'', password_hash := ''ffff'', wallet_amount := 3\<rparr>]
       = Ok200 (''Login successful'', (''9800000002'', ''Bina''), [(''9800000001'', ''Asha'')])"
proof -
  have rel: "list_all2 (same_public ''9800000002'') [asha, bina]
     [asha\<lparr>email := ''a@b.c'', password_hash := ''0000'', mpin := ''9999'', wallet_amount := 7\<rparr>,
      bina\<lparr>email := ''x@y.z'', password_hash := ''ffff'', wallet_amount := 3\<rparr>]"
    by (simp add: same_public_def asha_def bina_def)
  have "login ''9800000002'' ''4321'' [asha, bina]
       = Ok200 (''Login successful'', (''9800000002'', ''Bina''), [(''9800000001'', ''Asha'')])"
    by (simp add: login_def asha_def bina_def)
  with rel login_noninterference [OF rel, of "''4321''"] show ?thesis
    by simp
qed

subsection \<open>Splitting, joining and trimming\<close>

lemma split_on_not_Nil: "split_on c s \<noteq> []"
  by (induction s) (auto split: list.splits)

lemma split_on_Cons_other:
  "x \<noteq> c \<Longrightarrow> split_on c (x # s) = (x # hd (split_on c s)) # tl (split_on c s)"
  using split_on_not_Nil [of c s] by (cases "split_on c s") auto

lemma split_on_no_sep: "c \<notin> set s \<Longrightarrow> split_on c s = [s]"
  by (induction s) auto

lemma split_on_append_sep: "split_on c (a @ c # b) = split_on c a @ split_on c b"
proof (induction a)
  case Nil
  show ?case
  proof (cases b)
    case Nil
    then show ?thesis by simp
  next
    case (Cons y ys)
    then show ?thesis by simp
  qed
next
  case (Cons x a)
  show ?case
  proof (cases "x = c")
    case True
    with Cons show ?thesis by simp
  next
    case False
    then show ?thesis
      using Cons split_on_not_Nil [of c a]
      by (cases "split_on c a") (auto simp: split_on_Cons_other)
  qed
qed

lemma split_on_pieces: "w \<in> set (split_on c s) \<Longrightarrow> c \<notin> set w"
proof (induction s arbitrary: w)
  case Nil
  then show ?case by simp
next
  case (Cons x s)
  show ?case
  proof (cases "x = c")
    case True
    with Cons show ?thesis by auto
  next
    case False
    obtain p ps where sp: "split_on c s = p # ps"
      using split_on_not_Nil [of c s] by (cases "split_on c s") auto
    with False Cons.prems have "w = x # p \<or> w \<in> set ps" by simp
    then show ?thesis
      using False Cons.IH sp by auto
  qed
qed

lemma join_Cons: "ys \<noteq> [] \<Longrightarrow> join c (x # ys) = x @ c # join c ys"
  by (cases ys) auto

lemma join_snoc: "xs \<noteq> [] \<Longrightarrow> join c (xs @ [y]) = join c xs @ c # y"
proof (induction xs)
  case Nil
  then show ?case by simp
next
  case (Cons x xs)
  then show ?case by (cases xs) (auto simp: join_Cons)
qed

lemma split_on_join:
  "xs \<noteq> [] \<Longrightarrow> \<forall>w\<in>set xs. c \<notin> set w \<Longrightarrow> split_on c (join c xs) = xs"
proof (induction xs)
  case Nil
  then show ?case by simp
next
  case (Cons x xs)
  show ?case
  proof (cases xs)
    case Nil
    with Cons.prems show ?thesis by (simp add: split_on_no_sep)
  next
    case (Cons y ys)
    with Cons.IH Cons.prems have "split_on c (join c xs) = xs" by simp
    with Cons Cons.prems show ?thesis
      by (simp add: split_on_append_sep split_on_no_sep)
  qed
qed

lemma join_split_on: "join c (split_on c s) = s"
proof (induction s)
  case Nil
  show ?case by simp
next
  case (Cons x s)
  obtain p ps where sp: "split_on c s = p # ps"
    using split_on_not_Nil [of c s] by (cases "split_on c s") auto
  show ?case
  proof (cases "x = c")
    case True
    with Cons sp show ?thesis by (simp add: join_Cons)
  next
    case False
    with Cons sp show ?thesis by (cases ps) auto
  qed
qed

lemma rtrim_append:
  "rev (dropWhile P (rev (a @ b))) =
     (if \<forall>x\<in>set b. P x then rev (dropWhile P (rev a)) else a @ rev (dropWhile P (rev b)))"
  by (simp add: dropWhile_append)

lemma rtrim_id: "s = [] \<or> \<not> P (last s) \<Longrightarrow> rev (dropWhile P (rev s)) = s"
  by (cases s rule: rev_cases) auto

lemma newline_is_ws: "is_ws CHR ''\<newline>''"
  by (simp add: is_ws_def)

lemma comma_not_ws: "\<not> is_ws CHR '',''"
  by (simp add: is_ws_def)

lemma trim_ends: "trim s = [] \<or> (\<not> is_ws (hd (trim s)) \<and> \<not> is_ws (last (trim s)))"
proof (cases "trim s = []")
  case True
  then show ?thesis by simp
next
  case False
  let ?l = "dropWhile is_ws s"
  have t: "trim s = rev (dropWhile is_ws (rev ?l))" by (simp add: trim_def)
  from False t have ne: "dropWhile is_ws (rev ?l) \<noteq> []" by simp
  then have "\<not> is_ws (hd (dropWhile is_ws (rev ?l)))" by (rule hd_dropWhile)
  then have last_ok: "\<not> is_ws (last (trim s))"
    using ne t by (simp add: last_rev)
  have lne: "?l \<noteq> []"
  proof
    assume "?l = []"
    with ne show False by simp
  qed
  then have hd_l: "\<not> is_ws (hd ?l)" by (rule hd_dropWhile)
  from lne obtain y ys where l: "?l = y # ys" by (cases ?l) auto
  with hd_l have y: "\<not> is_ws y" by simp
  have "trim s = rev (dropWhile is_ws (rev ([y] @ ys)))" using t l by simp
  also have "\<dots> = (if \<forall>x\<in>set ys. is_ws x then rev (dropWhile is_ws (rev [y]))
       else [y] @ rev (dropWhile is_ws (rev ys)))"
    by (rule rtrim_append)
  finally have "hd (trim s) = y" using y by (simp split: if_splits)
  with y last_ok show ?thesis by simp
qed

subsection \<open>Reading the store\<close>

lemma split_headerB:
  "split_on CHR '','' headerB =
     [''id'', ''image_filename'', ''latitude'', ''longitude'', ''location'', ''description'', ''status'']"
  by (simp add: headerB_def)

lemma fold_assign:
  "distinct (map fst ps) \<Longrightarrow>
   fold (\<lambda>(header, index) report. assign report header (coerce Number header (nth_opt row index)))
       ps m key
     = (case map_of ps key of
          None \<Rightarrow> m key
        | Some index \<Rightarrow>
            if key = ''__proto__'' then m key
            else Some (coerce Number key (nth_opt row index)))"
proof (induction ps arbitrary: m)
  case Nil
  show ?case by simp
next
  case (Cons p ps)
  let ?F = "\<lambda>(header, index) report.
      assign report header (coerce Number header (nth_opt row index))"
  obtain h i where p: "p = (h, i)" by (cases p)
  from Cons.prems p have fresh: "map_of ps h = None"
    by (auto simp: map_of_eq_None_iff)
  let ?m = "assign m h (coerce Number h (nth_opt row i))"
  have "fold ?F (p # ps) m key = fold ?F ps ?m key"
    using p by simp
  also have "\<dots> = (case map_of ps key of
          None \<Rightarrow> ?m key
        | Some index \<Rightarrow>
            if key = ''__proto__'' then ?m key
            else Some (coerce Number key (nth_opt row index)))"
    using Cons.prems by (intro Cons.IH) auto
  also have "\<dots> = (case map_of (p # ps) key of
          None \<Rightarrow> m key
        | Some index \<Rightarrow>
            if key = ''__proto__'' then m key
            else Some (coerce Number key (nth_opt row index)))"
    using p fresh by (cases "key = h") (simp_all add: assign_def split: option.splits)
  finally show ?case .
qed

lemma parseRow_field:
  assumes "distinct headers" "i < length headers"
  shows "parseRow Number headers row (headers ! i)
           = (if headers ! i = ''__proto__'' then None
              else Some (coerce Number (headers ! i) (nth_opt row i)))"
proof -
  let ?ps = "zip headers [0..<length headers]"
  have "map_of ?ps (headers ! i) = Some ([0..<length headers] ! i)"
    using assms by (intro map_of_zip_nth) auto
  then have mo: "map_of ?ps (headers ! i) = Some i" using assms(2) by simp
  have "distinct (map fst ?ps)" using assms(1) by simp
  then have "parseRow Number headers row (headers ! i) = (case map_of ?ps (headers ! i) of
          None \<Rightarrow> Map.empty (headers ! i)
        | Some index \<Rightarrow>
            if headers ! i = ''__proto__'' then Map.empty (headers ! i)
            else Some (coerce Number (headers ! i) (nth_opt row index)))"
    unfolding parseRow_def by (rule fold_assign)
  then show ?thesis unfolding mo by simp
qed

lemma parseRow_other:
  assumes "distinct headers" "key \<notin> set headers"
  shows "parseRow Number headers row key = None"
proof -
  let ?ps = "zip headers [0..<length headers]"
  have mo: "map_of ?ps key = None"
    using assms(2) by (auto simp: map_of_eq_None_iff dest: set_zip_leftD)
  have "distinct (map fst ?ps)" using assms(1) by simp
  then have "parseRow Number headers row key = (case map_of ?ps key of
          None \<Rightarrow> Map.empty key
        | Some index \<Rightarrow>
            if key = ''__proto__'' then Map.empty key
            else Some (coerce Number key (nth_opt row index)))"
    unfolding parseRow_def by (rule fold_assign)
  then show ?thesis unfolding mo by simp
qed

lemma parseRow_headerB:
  "parseRow Number
     [''id'', ''image_filename'', ''latitude'', ''longitude'', ''location'', ''description'', ''status'']
     row =
    [''id'' \<mapsto> JNum (Number (nth_opt row 0)),
     ''image_filename'' \<mapsto> str_or_undefined (nth_opt row 1),
     ''latitude'' \<mapsto> JNum (Number (nth_opt row 2)),
     ''longitude'' \<mapsto> JNum (Number (nth_opt row 3)),
     ''location'' \<mapsto> str_or_undefined (nth_opt row 4),
     ''description'' \<mapsto> str_or_undefined (nth_opt row 5),
     ''status'' \<mapsto> str_or_undefined (nth_opt row 6)]"
  by (simp add: parseRow_def upt_conv_Cons assign_def coerce_def eval_nat_numeral)

lemma lines_short: "lines_of short_store = [headerB, ''1,a.png'']"
  by (simp add: short_store_def lines_of_def trim_def is_ws_def headerB_def)

text \<open>
  Claim C5 says that the read fails when a data row has another number of cells than
  the header. On the store whose only data row has two cells the handler answers 200
  with one record; the fields under the five headers without a cell are \<^verbatim>\<open>undefined\<close>
  (\<^verbatim>\<open>Number(undefined)\<close> for the numeric ones).
\<close>

theorem getReports_short_row_counterexample:
  "getReports id (Some short_store) =
     Ok200 [[''id'' \<mapsto> JNum (Some ''1''),
             ''image_filename'' \<mapsto> JStr ''a.png'',
             ''latitude'' \<mapsto> JNum None,
             ''longitude'' \<mapsto> JNum None,
             ''location'' \<mapsto> JUndefined,
             ''description'' \<mapsto> JUndefined,
             ''status'' \<mapsto> JUndefined]]
   \<and> length (split_on CHR '','' (lines_of short_store ! 1)) = 2
   \<and> length (split_on CHR '','' (hd (lines_of short_store))) = 7"
  by (simp add: getReports_def lines_short parseRow_headerB nth_opt_def str_or_undefined_def split_headerB)


text \<open>
  Claim C5, amended. On every existing store file the read answers 200 with one record
  per data line, whatever the rows' numbers of cells. Under distinct header names the
  field under the \<open>i\<close>-th header is the \<open>i\<close>-th cell of the row, through \<^verbatim>\<open>Number\<close> for
  \<^verbatim>\<open>id\<close>, \<^verbatim>\<open>latitude\<close> and \<^verbatim>\<open>longitude\<close>, except that no field is stored under a header
  named \<^verbatim>\<open>__proto__\<close>; where the row has no such cell the value is \<^verbatim>\<open>undefined\<close>
  (\<^verbatim>\<open>Number(undefined)\<close> under the three numeric names). The record has no other field:
  cells beyond the header's are not read.
\<close>

theorem getReports_any_column_count:
  "\<exists>rs. getReports Number (Some csvData) = Ok200 rs
      \<and> length rs = length (data_rows csvData)
      \<and> (distinct (header_cells csvData) \<longrightarrow>
           (\<forall>j<length rs. \<forall>i<length (header_cells csvData).
              (rs ! j) (header_cells csvData ! i)
                = (if header_cells csvData ! i = ''__proto__'' then None
                   else Some (coerce Number (header_cells csvData ! i)
                          (nth_opt (data_rows csvData ! j) i))))
           \<and> (\<forall>j<length rs. \<forall>key. key \<notin> set (header_cells csvData) \<longrightarrow> (rs ! j) key = None))"
proof -
  let ?rs = "map (parseRow Number (header_cells csvData)) (data_rows csvData)"
  have "getReports Number (Some csvData) = Ok200 ?rs"
    by (simp add: getReports_def header_cells_def data_rows_def Let_def comp_def)
  moreover have "length ?rs = length (data_rows csvData)" by simp
  moreover have "(?rs ! j) (header_cells csvData ! i)
        = (if header_cells csvData ! i = ''__proto__'' then None
           else Some (coerce Number (header_cells csvData ! i) (nth_opt (data_rows csvData ! j) i)))"
    if "distinct (header_cells csvData)" "j < length ?rs" "i < length (header_cells csvData)"
    for i j
    using that by (simp add: parseRow_field)
  moreover have "(?rs ! j) key = None"
    if "distinct (header_cells csvData)" "j < length ?rs" "key \<notin> set (header_cells csvData)"
    for j key
    using that by (simp add: parseRow_other)
  ultimately show ?thesis by blast
qed

lemma header_cells_short:
  "header_cells short_store =
     [''id'', ''image_filename'', ''latitude'', ''longitude'', ''location'', ''description'', ''status'']"
  by (simp add: header_cells_def lines_short split_headerB)

lemma data_rows_short: "data_rows short_store = [[''1'', ''a.png'']]"
  by (simp add: data_rows_def lines_short)

theorem getReports_any_column_count_witness:
  "\<exists>rs. getReports id (Some short_store) = Ok200 rs \<and> length rs = 1
      \<and> (rs ! 0) ''image_filename'' = Some (JStr ''a.png'')
      \<and> (rs ! 0) ''latitude'' = Some (JNum None)
      \<and> (rs ! 0) ''status'' = Some JUndefined
      \<and> (rs ! 0) ''urgency_level'' = None"
proof -
  from getReports_any_column_count [of id short_store]
  obtain rs where rs: "getReports id (Some short_store) = Ok200 rs"
    and len: "length rs = length (data_rows short_store)"
    and cells: "distinct (header_cells short_store) \<longrightarrow>
           (\<forall>j<length rs. \<forall>i<length (header_cells short_store).
              (rs ! j) (header_cells short_store ! i)
                = (if header_cells short_store ! i = ''__proto__'' then None
                   else Some (coerce id (header_cells short_store ! i)
                          (nth_opt (data_rows short_store ! j) i))))
           \<and> (\<forall>j<length rs. \<forall>key. key \<notin> set (header_cells short_store) \<longrightarrow> (rs ! j) key = None)"
    by blast
  from len have l1: "length rs = 1" by (simp add: data_rows_short)
  have d: "distinct (header_cells short_store)" by (simp add: header_cells_short)
  from cells d l1 have field: "i < 7 \<Longrightarrow> (rs ! 0) (header_cells short_store ! i)
       = (if header_cells short_store ! i = ''__proto__'' then None
          else Some (coerce id (header_cells short_store ! i) (nth_opt [''1'', ''a.png''] i)))" for i
    by (simp add: header_cells_short data_rows_short)
  from cells d l1 have other: "key \<notin> set (header_cells short_store) \<Longrightarrow> (rs ! 0) key = None"
    for key
    by simp
  have "(rs ! 0) ''image_filename'' = Some (JStr ''a.png'')"
    using field [of 1] by (simp add: header_cells_short coerce_def nth_opt_def str_or_undefined_def)
  moreover have "(rs ! 0) ''latitude'' = Some (JNum None)"
    using field [of 2] by (simp add: header_cells_short coerce_def nth_opt_def)
  moreover have "(rs ! 0) ''status'' = Some JUndefined"
    using field [of 6] by (simp add: header_cells_short coerce_def nth_opt_def str_or_undefined_def)
  moreover have "(rs ! 0) ''urgency_level'' = None"
    using other [of "''urgency_level''"] by (simp add: header_cells_short)
  ultimately show ?thesis using rs l1 by blast
qed

text \<open>A header cell named \<^verbatim>\<open>__proto__\<close>: the record has no field under it.\<close>

lemma getReports_proto_header:
  "getReports id (Some ''id,__proto__\<newline>1,x\<newline>'') = Ok200 [[''id'' \<mapsto> JNum (Some ''1'')]]"
  by (simp add: getReports_def lines_of_def trim_def is_ws_def parseRow_def assign_def coerce_def
      nth_opt_def upt_conv_Cons)

subsection \<open>Status update\<close>

text \<open>
  Claim C6. When no data line of the store has the given id as its first cell, the
  status update answers 404 and the store file is the one it read.
\<close>

theorem updateStatus_not_found:
  assumes "\<forall>line\<in>set (tl (lines_of csvData)). hd (split_on CHR '','' line) \<noteq> reportId"
  shows "updateStatus Number reportId status (Some csvData)
           = (Fail 404 ''Report not found.'', Some csvData)"
  using assms by (simp add: updateStatus_def reportFound_def list_ex_iff Let_def)

lemma lines_one_report:
  "lines_of one_report = [headerB, ''1,17-a.png,12.9,77.6,MG Road,Flood,not_resolved'']"
  by (simp add: one_report_def lines_of_def trim_def is_ws_def headerB_def)

theorem updateStatus_not_found_witness:
  "updateStatus id ''2'' ''resolved'' (Some one_report)
     = (Fail 404 ''Report not found.'', Some one_report)"
  using updateStatus_not_found [of one_report "''2''" id "''resolved''"]
  by (simp add: lines_one_report)

subsection \<open>Appending a report and reading it back\<close>

declare show_nat.simps [simp del]

lemma show_nat_digits: "show_nat n \<noteq> [] \<and> set (show_nat n) \<subseteq> set ''0123456789''"
proof (induction n rule: show_nat.induct)
  case (1 n)
  have digit: "''0123456789'' ! (k mod 10) \<in> set ''0123456789''" for k :: nat
    by (rule nth_mem) simp
  show ?case
  proof (cases "n < 10")
    case True
    then have "''0123456789'' ! n \<in> set ''0123456789''"
      by (intro nth_mem) simp
    with True show ?thesis
      by (subst show_nat.simps, subst (2) show_nat.simps) simp
  next
    case False
    with 1 digit [of n] show ?thesis
      by (subst show_nat.simps, subst (2) show_nat.simps) simp
  qed
qed

lemma show_nat_no_comma: "CHR '','' \<notin> set (show_nat n)"
  using show_nat_digits [of n] by auto

lemma show_nat_no_newline: "CHR ''\<newline>'' \<notin> set (show_nat n)"
  using show_nat_digits [of n] by auto

lemma digit_value: "d < 10 \<Longrightarrow> of_char (''0123456789'' ! d) - 48 = (d::nat)"
proof -
  assume "d < 10"
  then consider "d = 0" | "d = 1" | "d = 2" | "d = 3" | "d = 4" | "d = 5" | "d = 6"
    | "d = 7" | "d = 8" | "d = 9"
    by atomize_elim arith
  then show ?thesis by cases simp_all
qed

lemma decimal_snoc: "decimal (s @ [c]) = 10 * decimal s + (of_char c - 48)"
  by (simp add: decimal_def)

text \<open>The digits written for a line count denote that count.\<close>

lemma decimal_show_nat: "decimal (show_nat n) = n"
proof (induction n rule: show_nat.induct)
  case (1 n)
  show ?case
  proof (cases "n < 10")
    case True
    then have "show_nat n = [''0123456789'' ! n]" by (subst show_nat.simps) simp
    then have "decimal (show_nat n) = of_char (''0123456789'' ! n) - 48"
      by (simp add: decimal_def)
    with True show ?thesis by (simp only: digit_value)
  next
    case False
    then have "show_nat n = show_nat (n div 10) @ [''0123456789'' ! (n mod 10)]"
      by (subst show_nat.simps) simp
    then have "decimal (show_nat n)
        = 10 * decimal (show_nat (n div 10)) + (of_char (''0123456789'' ! (n mod 10)) - 48)"
      by (simp only: decimal_snoc)
    also have "\<dots> = 10 * (n div 10) + n mod 10"
      using 1 [OF False] digit_value [of "n mod 10"] by simp
    finally show ?thesis by simp
  qed
qed

lemma split_on_cell: "c \<notin> set a \<Longrightarrow> split_on c (a @ c # b) = a # split_on c b"
  by (simp add: split_on_append_sep split_on_no_sep)

lemma ltrim_last:
  assumes "x \<in> set s" "\<not> is_ws x"
  shows "dropWhile is_ws s \<noteq> [] \<and> last (dropWhile is_ws s) = last s"
proof -
  have ne: "dropWhile is_ws s \<noteq> []"
    using assms by (auto simp: dropWhile_eq_Nil_conv)
  have "s = takeWhile is_ws s @ dropWhile is_ws s" by simp
  then have "last s = last (takeWhile is_ws s @ dropWhile is_ws s)" by simp
  also have "\<dots> = last (dropWhile is_ws s)" using ne by (rule last_appendR)
  finally show ?thesis using ne by simp
qed

lemma lines_after_append:
  assumes nonblank: "x \<in> set csvData" "\<not> is_ws x"
    and nl: "last csvData = CHR ''\<newline>''"
    and r: "CHR ''\<newline>'' \<notin> set r" "r \<noteq> []" "\<not> is_ws (last r)"
  shows "lines_of (csvData @ r @ ''\<newline>'')
           = split_on CHR ''\<newline>'' (butlast (dropWhile is_ws csvData)) @ [r]"
proof -
  let ?L = "dropWhile is_ws csvData"
  from ltrim_last [OF nonblank] nl have L: "?L \<noteq> []" "last ?L = CHR ''\<newline>''"
    by simp_all
  then have Lsplit: "?L = butlast ?L @ [CHR ''\<newline>'']"
    using append_butlast_last_id [of ?L] by simp
  have "dropWhile is_ws (csvData @ r @ ''\<newline>'') = ?L @ r @ ''\<newline>''"
    using nonblank by (rule dropWhile_append1)
  then have "trim (csvData @ r @ ''\<newline>'') = rev (dropWhile is_ws (rev ((?L @ r) @ ''\<newline>'')))"
    by (simp add: trim_def)
  also have "\<dots> = rev (dropWhile is_ws (rev (?L @ r)))"
    by (subst rtrim_append) (simp add: newline_is_ws)
  also have "\<dots> = ?L @ r"
    using r by (intro rtrim_id) simp
  also have "\<dots> = butlast ?L @ CHR ''\<newline>'' # r"
    using Lsplit by (metis append.assoc append_Cons append_Nil)
  finally have "lines_of (csvData @ r @ ''\<newline>'')
      = split_on CHR ''\<newline>'' (butlast ?L @ CHR ''\<newline>'' # r)"
    by (simp add: lines_of_def)
  then show ?thesis
    using r(1) by (simp add: split_on_append_sep split_on_no_sep)
qed

lemma hd_lines_header:
  assumes "starts_with_header header csvData"
    and H: "header \<noteq> []" "\<not> is_ws (hd header)" "\<not> is_ws (last header)"
      "CHR ''\<newline>'' \<notin> set header"
  shows "hd (lines_of csvData) = header"
proof -
  from assms(1) have "csvData = (header @ ''\<newline>'') @ drop (Suc (length header)) csvData"
    unfolding starts_with_header_def by (metis append_take_drop_id)
  then obtain rest where csv: "csvData = header @ CHR ''\<newline>'' # rest"
    by auto
  have l: "dropWhile is_ws csvData = csvData"
    using H(1,2) csv by (cases header) auto
  let ?t = "rev (dropWhile is_ws (rev (CHR ''\<newline>'' # rest)))"
  have "trim csvData = rev (dropWhile is_ws (rev (header @ CHR ''\<newline>'' # rest)))"
    using l csv by (simp add: trim_def)
  also have "\<dots> = (if \<forall>x\<in>set (CHR ''\<newline>'' # rest). is_ws x
       then rev (dropWhile is_ws (rev header)) else header @ ?t)"
    by (rule rtrim_append)
  also have "rev (dropWhile is_ws (rev header)) = header"
    using H(3) by (intro rtrim_id) simp
  finally have t: "trim csvData = (if \<forall>x\<in>set (CHR ''\<newline>'' # rest). is_ws x then header else header @ ?t)" .
  show ?thesis
  proof (cases "\<forall>x\<in>set (CHR ''\<newline>'' # rest). is_ws x")
    case True
    with t H(4) show ?thesis by (simp add: lines_of_def split_on_no_sep)
  next
    case False
    then have "?t = CHR ''\<newline>'' # rev (dropWhile is_ws (rev rest))"
      using rtrim_append [of is_ws "[CHR ''\<newline>'']" rest] by (auto simp: newline_is_ws)
    with False t H(4) show ?thesis
      by (simp add: lines_of_def split_on_append_sep split_on_no_sep)
  qed
qed

lemma headerB_shape:
  "headerB \<noteq> []" "\<not> is_ws (hd headerB)" "\<not> is_ws (last headerB)" "CHR ''\<newline>'' \<notin> set headerB"
  by (simp_all add: headerB_def is_ws_def)

lemma hd_lines_headerB: "starts_with_header headerB csvData \<Longrightarrow> hd (lines_of csvData) = headerB"
  by (rule hd_lines_header) (simp_all add: headerB_shape)

lemma starts_with_header_append:
  "starts_with_header header csvData \<Longrightarrow> starts_with_header header (csvData @ extra)"
proof -
  assume a: "starts_with_header header csvData"
  then have "Suc (length header) \<le> length csvData"
    unfolding starts_with_header_def
    by (metis length_append_singleton length_take min.cobounded1 min_def le_refl)
  with a show ?thesis by (simp add: starts_with_header_def)
qed

lemma snd_postReportB:
  "snd (postReportB parseFloat req fs) =
     (case image req of None \<Rightarrow> fs
      | Some filename \<Rightarrow>
         (case fs of None \<Rightarrow> None
          | Some csvData \<Rightarrow> Some (csvData @ show_nat (length (lines_of csvData)) @ '','' @ filename
              @ '','' @ latitude req @ '','' @ longitude req @ '','' @ location req @ '',''
              @ description req @ '',not_resolved'' @ ''\<newline>'')))"
  by (simp add: postReportB_def Let_def split: option.splits)

lemma snd_updateStatus:
  "snd (updateStatus Number reportId status fs) =
     (case fs of None \<Rightarrow> None
      | Some csvData \<Rightarrow>
          if reportFound reportId (lines_of csvData)
          then Some (join CHR ''\<newline>''
                 (hd (lines_of csvData) # map (updateLine reportId status) (tl (lines_of csvData)))
                 @ ''\<newline>'')
          else Some csvData)"
  by (simp add: updateStatus_def Let_def split: option.splits)

text \<open>The fresh file is such a store, and the handlers of variant B keep the property.\<close>

lemma headed_store_fresh:
  "initStore headerB None = Some (headerB @ ''\<newline>'')" "headed_store (headerB @ ''\<newline>'')"
  by (simp_all add: initStore_def headed_store_def starts_with_header_def)

lemma headed_store_post:
  assumes "headed_store csvData"
  shows "\<exists>csvData'. snd (postReportB parseFloat req (Some csvData)) = Some csvData'
           \<and> headed_store csvData'"
proof -
  from assms have h: "starts_with_header headerB csvData" and l: "last csvData = CHR ''\<newline>''"
    by (simp_all add: headed_store_def)
  show ?thesis
  proof (cases "image req")
    case None
    with assms show ?thesis by (simp add: snd_postReportB)
  next
    case (Some filename)
    with l starts_with_header_append [OF h] show ?thesis
      by (simp add: snd_postReportB headed_store_def)
  qed
qed

lemma headed_store_update:
  assumes "headed_store csvData"
  shows "\<exists>csvData'. snd (updateStatus Number reportId status (Some csvData)) = Some csvData'
           \<and> headed_store csvData'"
proof -
  from assms have h: "starts_with_header headerB csvData" and l: "last csvData = CHR ''\<newline>''"
    by (simp_all add: headed_store_def)
  show ?thesis
  proof (cases "reportFound reportId (lines_of csvData)")
    case False
    with assms show ?thesis by (simp add: snd_updateStatus)
  next
    case True
    then have "tl (lines_of csvData) \<noteq> []"
      by (auto simp: reportFound_def)
    then have "map (updateLine reportId status) (tl (lines_of csvData)) \<noteq> []" by simp
    then have "join CHR ''\<newline>''
        (headerB # map (updateLine reportId status) (tl (lines_of csvData)))
        = headerB @ CHR ''\<newline>'' # join CHR ''\<newline>''
            (map (updateLine reportId status) (tl (lines_of csvData)))"
      by (rule join_Cons)
    with True hd_lines_headerB [OF h] show ?thesis
      by (simp add: snd_updateStatus headed_store_def starts_with_header_def)
  qed
qed

lemma header_nonblank:
  assumes "starts_with_header headerB csvData"
  shows "CHR ''i'' \<in> set csvData" "\<not> is_ws CHR ''i''"
proof -
  from assms have "csvData = (headerB @ ''\<newline>'') @ drop (Suc (length headerB)) csvData"
    unfolding starts_with_header_def by (metis append_take_drop_id)
  then have "set headerB \<subseteq> set csvData"
    by (metis set_append Un_upper1 subset_trans)
  then show "CHR ''i'' \<in> set csvData" by (auto simp: headerB_def)
  show "\<not> is_ws CHR ''i''" by (simp add: is_ws_def)
qed

lemma fst_postReportB:
  "image req = Some filename \<Longrightarrow>
   fst (postReportB parseFloat req (Some csvData)) =
     Ok200 [''id'' \<mapsto> JInt (length (lines_of csvData)),
            ''image_filename'' \<mapsto> JStr filename,
            ''latitude'' \<mapsto> JNum (parseFloat (latitude req)),
            ''longitude'' \<mapsto> JNum (parseFloat (longitude req)),
            ''location'' \<mapsto> JStr (location req),
            ''description'' \<mapsto> JStr (description req),
            ''status'' \<mapsto> JStr ''not_resolved'']"
  by (simp add: postReportB_def Let_def)

lemma rowB_cells:
  assumes "CHR '','' \<notin> set a" "CHR '','' \<notin> set b" "CHR '','' \<notin> set c" "CHR '','' \<notin> set d"
    "CHR '','' \<notin> set e" "CHR '','' \<notin> set f"
  shows "split_on CHR '','' (a @ '','' @ b @ '','' @ c @ '','' @ d @ '','' @ e @ '','' @ f
           @ '',not_resolved'')
         = [a, b, c, d, e, f, ''not_resolved'']"
  using assms by (simp add: split_on_cell)

text \<open>
  Claim C3 says that the round trip holds in every store state. Start-up keeps a store
  file that exists; on the kept file that holds the header row without a newline after
  it, the submitted row is joined to the header line and the read that follows gives no
  record at all.
\<close>

theorem report_roundtrip_counterexample:
  "getReports id (snd (postReportB Some flood_report (initStore headerB (Some headerB))))
     = Ok200 []"
  by (simp add: getReports_def postReportB_def initStore_def flood_report_def Let_def
      lines_of_def trim_def is_ws_def headerB_def show_nat.simps)

text \<open>
  Claim C3, amended. On every store of variant B whose text begins with the header row
  and ends with a newline, submitting a report with an image whose field values contain
  neither a comma nor a newline and then reading all reports gives, as the last record,
  the written values under the header's names: \<^verbatim>\<open>latitude\<close> and \<^verbatim>\<open>longitude\<close> through
  \<^verbatim>\<open>Number\<close>, the other fields as the strings written, and \<^verbatim>\<open>id\<close> as \<^verbatim>\<open>Number\<close> of the
  decimal digits that denote the id of the answer.
\<close>

theorem report_roundtrip:
  assumes store: "headed_store csvData"
    and img: "image req = Some filename"
    and clean: "\<forall>field\<in>set [filename, latitude req, longitude req, location req, description req].
                  CHR '','' \<notin> set field \<and> CHR ''\<newline>'' \<notin> set field"
  shows "\<exists>rs idText.
        fst (postReportB parseFloat req (Some csvData)) =
          Ok200 [''id'' \<mapsto> JInt (length (lines_of csvData)),
                 ''image_filename'' \<mapsto> JStr filename,
                 ''latitude'' \<mapsto> JNum (parseFloat (latitude req)),
                 ''longitude'' \<mapsto> JNum (parseFloat (longitude req)),
                 ''location'' \<mapsto> JStr (location req),
                 ''description'' \<mapsto> JStr (description req),
                 ''status'' \<mapsto> JStr ''not_resolved'']
      \<and> getReports Number (snd (postReportB parseFloat req (Some csvData))) = Ok200 rs
      \<and> rs \<noteq> []
      \<and> last rs =
          [''id'' \<mapsto> JNum (Number (Some idText)),
           ''image_filename'' \<mapsto> JStr filename,
           ''latitude'' \<mapsto> JNum (Number (Some (latitude req))),
           ''longitude'' \<mapsto> JNum (Number (Some (longitude req))),
           ''location'' \<mapsto> JStr (location req),
           ''description'' \<mapsto> JStr (description req),
           ''status'' \<mapsto> JStr ''not_resolved'']
      \<and> idText = show_nat (length (lines_of csvData))
      \<and> idText \<noteq> [] \<and> set idText \<subseteq> set ''0123456789''
      \<and> decimal idText = length (lines_of csvData)"
proof -
  from store have h: "starts_with_header headerB csvData" and l: "last csvData = CHR ''\<newline>''"
    by (simp_all add: headed_store_def)
  let ?n = "show_nat (length (lines_of csvData))"
  let ?r = "?n @ '','' @ filename @ '','' @ latitude req @ '','' @ longitude req @ '',''
      @ location req @ '','' @ description req @ '',not_resolved''"
  let ?csv = "csvData @ ?r @ ''\<newline>''"
  have written: "snd (postReportB parseFloat req (Some csvData)) = Some ?csv"
    using img by (simp add: snd_postReportB)
  have r_nl: "CHR ''\<newline>'' \<notin> set ?r"
    using clean show_nat_no_newline [of "length (lines_of csvData)"] by simp
  have lines: "lines_of ?csv
      = split_on CHR ''\<newline>'' (butlast (dropWhile is_ws csvData)) @ [?r]"
    using header_nonblank [OF h] l r_nl
    by (rule lines_after_append) (simp_all add: is_ws_def)
  obtain p ps where old: "split_on CHR ''\<newline>'' (butlast (dropWhile is_ws csvData)) = p # ps"
    using split_on_not_Nil [of "CHR ''\<newline>''" "butlast (dropWhile is_ws csvData)"]
    by (cases "split_on CHR ''\<newline>'' (butlast (dropWhile is_ws csvData))") auto
  have "starts_with_header headerB ?csv"
    using h by (rule starts_with_header_append)
  then have "hd (lines_of ?csv) = headerB" by (rule hd_lines_headerB)
  then have p: "p = headerB" unfolding lines old by simp
  have cells: "split_on CHR '','' ?r
      = [?n, filename, latitude req, longitude req, location req, description req,
         ''not_resolved'']"
    using clean show_nat_no_comma [of "length (lines_of csvData)"]
    by (intro rowB_cells) simp_all
  let ?parse = "\<lambda>line. parseRow Number (split_on CHR '','' headerB) (split_on CHR '','' line)"
  have get: "getReports Number (Some ?csv) = Ok200 (map ?parse ps @ [?parse ?r])"
    unfolding getReports_def Let_def option.case lines old p by simp
  have rec: "?parse ?r =
          [''id'' \<mapsto> JNum (Number (Some ?n)),
           ''image_filename'' \<mapsto> JStr filename,
           ''latitude'' \<mapsto> JNum (Number (Some (latitude req))),
           ''longitude'' \<mapsto> JNum (Number (Some (longitude req))),
           ''location'' \<mapsto> JStr (location req),
           ''description'' \<mapsto> JStr (description req),
           ''status'' \<mapsto> JStr ''not_resolved'']"
    unfolding cells split_headerB parseRow_headerB
    by (simp add: nth_opt_def str_or_undefined_def)
  have digits: "?n \<noteq> []" "set ?n \<subseteq> set ''0123456789''"
    using show_nat_digits [of "length (lines_of csvData)"] by simp_all
  have denotes: "decimal ?n = length (lines_of csvData)"
    by (rule decimal_show_nat)
  have last: "getReports Number (snd (postReportB parseFloat req (Some csvData)))
      = Ok200 (map ?parse ps @ [?parse ?r])"
    using written get by simp
  show ?thesis
  proof (intro exI [of _ "map ?parse ps @ [?parse ?r]"] exI [of _ ?n] conjI)
    show "fst (postReportB parseFloat req (Some csvData)) =
          Ok200 [''id'' \<mapsto> JInt (length (lines_of csvData)),
                 ''image_filename'' \<mapsto> JStr filename,
                 ''latitude'' \<mapsto> JNum (parseFloat (latitude req)),
                 ''longitude'' \<mapsto> JNum (parseFloat (longitude req)),
                 ''location'' \<mapsto> JStr (location req),
                 ''description'' \<mapsto> JStr (description req),
                 ''status'' \<mapsto> JStr ''not_resolved'']"
      by (rule fst_postReportB [OF img])
    show "getReports Number (snd (postReportB parseFloat req (Some csvData)))
      = Ok200 (map ?parse ps @ [?parse ?r])"
      by (rule last)
    show "map ?parse ps @ [?parse ?r] \<noteq> []" by simp
    show "last (map ?parse ps @ [?parse ?r]) =
          [''id'' \<mapsto> JNum (Number (Some ?n)),
           ''image_filename'' \<mapsto> JStr filename,
           ''latitude'' \<mapsto> JNum (Number (Some (latitude req))),
           ''longitude'' \<mapsto> JNum (Number (Some (longitude req))),
           ''location'' \<mapsto> JStr (location req),
           ''description'' \<mapsto> JStr (description req),
           ''status'' \<mapsto> JStr ''not_resolved'']"
      using rec by simp
    show "?n = show_nat (length (lines_of csvData))" by (rule refl)
    show "?n \<noteq> []" by (rule digits(1))
    show "set ?n \<subseteq> set ''0123456789''" by (rule digits(2))
    show "decimal ?n = length (lines_of csvData)" by (rule denotes)
  qed
qed

theorem report_roundtrip_witness:
  "headed_store (headerB @ ''\<newline>'')
   \<and> (\<exists>rs. getReports id (snd (postReportB Some flood_report (Some (headerB @ ''\<newline>''))))
            = Ok200 rs
       \<and> last rs =
          [''id'' \<mapsto> JNum (Some ''1''),
           ''image_filename'' \<mapsto> JStr ''17-a.png'',
           ''latitude'' \<mapsto> JNum (Some ''12.9''),
           ''longitude'' \<mapsto> JNum (Some ''77.6''),
           ''location'' \<mapsto> JStr ''MG Road'',
           ''description'' \<mapsto> JStr ''Flood'',
           ''status'' \<mapsto> JStr ''not_resolved''])
   \<and> decimal ''1'' = 1"
proof -
  have n: "show_nat (length (lines_of (headerB @ ''\<newline>''))) = ''1''"
    by (simp add: lines_of_def trim_def is_ws_def headerB_def show_nat.simps)
  from report_roundtrip [OF headed_store_fresh(2), of flood_report "''17-a.png''" Some id]
  obtain rs idText where
    "getReports id (snd (postReportB Some flood_report (Some (headerB @ ''\<newline>'')))) = Ok200 rs"
    and "last rs =
          [''id'' \<mapsto> JNum (id (Some idText)),
           ''image_filename'' \<mapsto> JStr ''17-a.png'',
           ''latitude'' \<mapsto> JNum (id (Some (latitude flood_report))),
           ''longitude'' \<mapsto> JNum (id (Some (longitude flood_report))),
           ''location'' \<mapsto> JStr (location flood_report),
           ''description'' \<mapsto> JStr (description flood_report),
           ''status'' \<mapsto> JStr ''not_resolved'']"
    and "idText = show_nat (length (lines_of (headerB @ ''\<newline>'')))"
    and "decimal idText = length (lines_of (headerB @ ''\<newline>''))"
    by (auto simp: flood_report_def)
  with n headed_store_fresh(2) show ?thesis
    by (auto simp: flood_report_def lines_of_def trim_def is_ws_def headerB_def)
qed

subsection \<open>Ids of sequential submissions\<close>

lemma upt_from: "[n..<n + Suc m] = n # [Suc n..<Suc n + m]"
  by (simp add: upt_conv_Cons del: upt_Suc)

lemma length_split_on: "length (split_on c s) = Suc (length (filter (\<lambda>x. x = c) s))"
proof (induction s)
  case Nil
  show ?case by simp
next
  case (Cons x s)
  then show ?case
    using split_on_not_Nil [of c s] by (cases "split_on c s") auto
qed

lemma terminated_counts_lines:
  assumes "terminated csvData"
  shows "counts_lines csvData"
proof -
  from assms obtain before where rv: "rev csvData = CHR ''\<newline>'' # before"
    and nb: "\<not> list_all is_ws (takeWhile (\<lambda>x. x \<noteq> CHR ''\<newline>'') before)"
    by (auto simp: terminated_def split: list.splits)
  from rv have csv: "csvData = rev before @ [CHR ''\<newline>'']"
    by (metis rev.simps(2) rev_rev_ident)
  then have last: "last csvData = CHR ''\<newline>''" by simp
  from nb obtain x where x: "x \<in> set (takeWhile (\<lambda>x. x \<noteq> CHR ''\<newline>'') before)" "\<not> is_ws x"
    by (auto simp: list_all_iff)
  then have xb: "x \<in> set before" by (auto dest: set_takeWhileD)
  then have xc: "x \<in> set csvData" using csv by simp
  let ?L = "dropWhile is_ws csvData"
  let ?B = "butlast ?L"
  from ltrim_last [OF xc x(2)] last have L: "?L \<noteq> []" "last ?L = CHR ''\<newline>''"
    by simp_all
  then have Lsplit: "?L = ?B @ [CHR ''\<newline>'']"
    using append_butlast_last_id [of ?L] by simp
  have "dropWhile is_ws (rev before @ [CHR ''\<newline>'']) = dropWhile is_ws (rev before) @ [CHR ''\<newline>'']"
    using xb x(2) by (intro dropWhile_append1 [of x]) auto
  with csv have B: "?B = dropWhile is_ws (rev before)" by simp
  have "rev before = takeWhile is_ws (rev before) @ ?B"
    using B by simp
  then have before: "before = rev ?B @ rev (takeWhile is_ws (rev before))"
    by (metis rev_append rev_rev_ident)
  let ?T = "takeWhile (\<lambda>x. x \<noteq> CHR ''\<newline>'') (rev ?B)"
  have xT: "x \<in> set ?T"
  proof (cases "CHR ''\<newline>'' \<in> set (rev ?B)")
    case True
    then have "takeWhile (\<lambda>x. x \<noteq> CHR ''\<newline>'') (rev ?B @ rev (takeWhile is_ws (rev before))) = ?T"
      by (intro takeWhile_append1 [of "CHR ''\<newline>''"]) auto
    with x(1) before show ?thesis by metis
  next
    case False
    then have all: "?T = rev ?B"
      by (intro takeWhile_eq_all_conv [THEN iffD2]) auto
    have "x \<in> set (rev ?B) \<or> x \<in> set (rev (takeWhile is_ws (rev before)))"
      using xb before by (metis Un_iff set_append)
    moreover have "x \<notin> set (rev (takeWhile is_ws (rev before)))"
      using x(2) by (auto dest: set_takeWhileD)
    ultimately have "x \<in> set (rev ?B)" by blast
    then show ?thesis by (simp only: all)
  qed
  have "rev ?B = ?T @ dropWhile (\<lambda>x. x \<noteq> CHR ''\<newline>'') (rev ?B)" by simp
  then have "takeWhile is_ws (rev ?B) = takeWhile is_ws (?T @ dropWhile (\<lambda>x. x \<noteq> CHR ''\<newline>'') (rev ?B))"
    by simp
  also have "\<dots> = takeWhile is_ws ?T"
    using xT x(2) by (rule takeWhile_append1)
  finally have "set (takeWhile is_ws (rev ?B)) \<subseteq> set ?T"
    by (auto dest: set_takeWhileD)
  then have no_nl: "CHR ''\<newline>'' \<notin> set (takeWhile is_ws (rev ?B))"
    by (auto dest: set_takeWhileD)
  have "trim csvData = rev (dropWhile is_ws (rev (?B @ [CHR ''\<newline>''])))"
    using Lsplit by (simp add: trim_def)
  also have "\<dots> = rev (dropWhile is_ws (rev ?B))"
    by (subst rtrim_append) (simp add: newline_is_ws)
  finally have t: "trim csvData = rev (dropWhile is_ws (rev ?B))" .
  have "filter (\<lambda>x. x = CHR ''\<newline>'') (rev ?B)
      = filter (\<lambda>x. x = CHR ''\<newline>'') (takeWhile is_ws (rev ?B))
        @ filter (\<lambda>x. x = CHR ''\<newline>'') (dropWhile is_ws (rev ?B))"
    by (metis filter_append takeWhile_dropWhile_id)
  also have "filter (\<lambda>x. x = CHR ''\<newline>'') (takeWhile is_ws (rev ?B)) = []"
    using no_nl by (auto simp: filter_empty_conv)
  finally have "length (filter (\<lambda>x. x = CHR ''\<newline>'') (rev ?B))
      = length (filter (\<lambda>x. x = CHR ''\<newline>'') (dropWhile is_ws (rev ?B)))"
    by simp
  then have "length (filter (\<lambda>x. x = CHR ''\<newline>'') ?B)
      = length (filter (\<lambda>x. x = CHR ''\<newline>'') (rev (dropWhile is_ws (rev ?B))))"
    by (simp add: rev_filter [symmetric] del: rev_filter)
  then have "length (lines_of csvData) = length (raw_lines csvData)"
    by (simp add: lines_of_def raw_lines_def t length_split_on)
  with xc x(2) last show ?thesis
    unfolding counts_lines_def by blast
qed

lemma terminated_after_row:
  assumes "CHR ''\<newline>'' \<notin> set r" "r \<noteq> []" "\<not> is_ws (last r)"
  shows "terminated (csvData @ r @ ''\<newline>'')"
proof -
  have "takeWhile (\<lambda>x. x \<noteq> CHR ''\<newline>'') (rev r @ rev csvData)
      = rev r @ takeWhile (\<lambda>x. x \<noteq> CHR ''\<newline>'') (rev csvData)"
    using assms(1) by (intro takeWhile_append2) auto
  moreover have "last r \<in> set (rev r)" using assms(2) by simp
  ultimately have "\<not> list_all is_ws (takeWhile (\<lambda>x. x \<noteq> CHR ''\<newline>'') (rev r @ rev csvData))"
    using assms(3) by (auto simp: list_all_iff)
  then show ?thesis by (simp add: terminated_def)
qed

lemma counts_lines_append:
  assumes inv: "counts_lines csvData"
    and r: "CHR ''\<newline>'' \<notin> set r" "r \<noteq> []" "\<not> is_ws (last r)"
  shows "lines_of (csvData @ r @ ''\<newline>'') = raw_lines csvData @ [r]"
    and "raw_lines (csvData @ r @ ''\<newline>'') = raw_lines csvData @ [r]"
    and "counts_lines (csvData @ r @ ''\<newline>'')"
proof -
  from inv obtain x where x: "x \<in> set csvData" "\<not> is_ws x"
    and last: "last csvData = CHR ''\<newline>''"
    unfolding counts_lines_def by blast
  show lines: "lines_of (csvData @ r @ ''\<newline>'') = raw_lines csvData @ [r]"
    unfolding raw_lines_def using x last r by (rule lines_after_append)
  let ?L = "dropWhile is_ws csvData"
  from ltrim_last [OF x] last have L: "?L \<noteq> []" "last ?L = CHR ''\<newline>''"
    by simp_all
  then have Lsplit: "?L = butlast ?L @ [CHR ''\<newline>'']"
    using append_butlast_last_id [of ?L] by simp
  have "dropWhile is_ws (csvData @ r @ ''\<newline>'') = ?L @ r @ ''\<newline>''"
    using x by (rule dropWhile_append1)
  then have "butlast (dropWhile is_ws (csvData @ r @ ''\<newline>'')) = ?L @ r"
    by (simp add: butlast_append)
  also have "\<dots> = butlast ?L @ CHR ''\<newline>'' # r"
    using Lsplit by (metis append.assoc append_Cons append_Nil)
  finally show raw: "raw_lines (csvData @ r @ ''\<newline>'') = raw_lines csvData @ [r]"
    using r(1) by (simp add: raw_lines_def split_on_append_sep split_on_no_sep)
  show "counts_lines (csvData @ r @ ''\<newline>'')"
    unfolding counts_lines_def using x lines raw by auto
qed

lemma postAll_rows:
  assumes "counts_lines csvData" and "\<forall>req\<in>set reqs. appends_row handler req"
  shows "\<exists>csvData' rows.
           snd (postAll handler reqs (Some csvData)) = Some csvData'
         \<and> counts_lines csvData'
         \<and> raw_lines csvData' = raw_lines csvData @ rows
         \<and> length rows = length reqs
         \<and> (\<forall>i<length reqs.
               hd (split_on CHR '','' (rows ! i)) = show_nat (length (raw_lines csvData) + i))
         \<and> (reqs \<noteq> [] \<longrightarrow> lines_of csvData' = raw_lines csvData')
         \<and> map answer_id (fst (postAll handler reqs (Some csvData)))
             = map Some [length (raw_lines csvData)..<length (raw_lines csvData) + length reqs]"
  using assms
proof (induction reqs arbitrary: csvData)
  case Nil
  then show ?case by simp
next
  case (Cons req reqs)
  let ?n = "length (raw_lines csvData)"
  from Cons.prems(1) have n: "length (lines_of csvData) = ?n"
    by (simp add: counts_lines_def)
  from Cons.prems(2) have "appends_row handler req" by simp
  then obtain answer cells where
    step: "handler req (Some csvData)
          = (answer, Some (csvData @ (show_nat ?n @ CHR '','' # cells) @ ''\<newline>''))"
    and aid: "answer_id answer = Some ?n"
    and cells: "no_newline cells" "cells \<noteq> []" "\<not> is_ws (last cells)"
    unfolding appends_row_def n [symmetric] by blast
  let ?r = "show_nat ?n @ CHR '','' # cells"
  let ?csv1 = "csvData @ ?r @ ''\<newline>''"
  have r: "CHR ''\<newline>'' \<notin> set ?r" "?r \<noteq> []" "\<not> is_ws (last ?r)"
    using cells show_nat_no_newline [of ?n] by (simp_all add: no_newline_def)
  note app = counts_lines_append [OF Cons.prems(1) r]
  from Cons.prems(2) have rest_ok: "\<forall>req\<in>set reqs. appends_row handler req" by simp
  from Cons.IH [OF app(3) rest_ok]
  obtain csvData' rows where
    fin: "snd (postAll handler reqs (Some ?csv1)) = Some csvData'"
    and inv': "counts_lines csvData'"
    and raw': "raw_lines csvData' = raw_lines ?csv1 @ rows"
    and len: "length rows = length reqs"
    and ids: "\<forall>i<length reqs.
               hd (split_on CHR '','' (rows ! i)) = show_nat (length (raw_lines ?csv1) + i)"
    and lines': "reqs \<noteq> [] \<longrightarrow> lines_of csvData' = raw_lines csvData'"
    and answers: "map answer_id (fst (postAll handler reqs (Some ?csv1)))
             = map Some [length (raw_lines ?csv1)..<length (raw_lines ?csv1) + length reqs]"
    by blast
  have n1: "length (raw_lines ?csv1) = Suc ?n" using app(2) by simp
  have first_cell: "hd (split_on CHR '','' ?r) = show_nat ?n"
    using show_nat_no_comma [of ?n] by (simp add: split_on_cell)
  have snd_eq: "snd (postAll handler (req # reqs) (Some csvData)) = Some csvData'"
    using step fin by (simp add: split_beta Let_def)
  have fst_eq: "fst (postAll handler (req # reqs) (Some csvData))
      = answer # fst (postAll handler reqs (Some ?csv1))"
    using step by (simp add: split_beta Let_def)
  have raw_all: "raw_lines csvData' = raw_lines csvData @ (?r # rows)"
    using raw' app(2) by simp
  have ids_all: "\<forall>i<length (req # reqs).
      hd (split_on CHR '','' ((?r # rows) ! i)) = show_nat (?n + i)"
  proof (intro allI impI)
    fix i assume i: "i < length (req # reqs)"
    show "hd (split_on CHR '','' ((?r # rows) ! i)) = show_nat (?n + i)"
    proof (cases i)
      case 0
      with first_cell show ?thesis by simp
    next
      case (Suc j)
      with i ids n1 show ?thesis by simp
    qed
  qed
  have lines_all: "lines_of csvData' = raw_lines csvData'"
  proof (cases "reqs = []")
    case True
    with fin have "csvData' = ?csv1" by simp
    with app(1,2) show ?thesis by simp
  next
    case False
    with lines' show ?thesis by simp
  qed
  have "map answer_id (fst (postAll handler (req # reqs) (Some csvData)))
      = Some ?n # map Some [Suc ?n..<Suc ?n + length reqs]"
    using fst_eq aid answers n1 by simp
  also have "\<dots> = map Some [?n..<?n + length (req # reqs)]"
    using upt_from [of ?n "length reqs"] by simp
  finally have answers_all: "map answer_id (fst (postAll handler (req # reqs) (Some csvData)))
      = map Some [?n..<?n + length (req # reqs)]" .
  from snd_eq inv' raw_all len ids_all lines_all answers_all
  show ?case
    by (intro exI [of _ csvData'] exI [of _ "?r # rows"]) simp
qed

lemma postAll_ids_follow:
  assumes "counts_lines csvData" and "\<forall>req\<in>set reqs. appends_row handler req"
  shows "ids_follow (postAll handler reqs (Some csvData)) csvData (length reqs)"
proof -
  from postAll_rows [OF assms] obtain csvData' rows where
    fin: "snd (postAll handler reqs (Some csvData)) = Some csvData'"
    and raw: "raw_lines csvData' = raw_lines csvData @ rows"
    and len: "length rows = length reqs"
    and ids: "\<forall>i<length reqs.
               hd (split_on CHR '','' (rows ! i)) = show_nat (length (raw_lines csvData) + i)"
    and lines: "reqs \<noteq> [] \<longrightarrow> lines_of csvData' = raw_lines csvData'"
    and answers: "map answer_id (fst (postAll handler reqs (Some csvData)))
             = map Some [length (raw_lines csvData)..<length (raw_lines csvData) + length reqs]"
    by blast
  from assms(1) have k: "length (lines_of csvData) = length (raw_lines csvData)"
    by (simp add: counts_lines_def)
  have all_lines: "lines_of csvData' = raw_lines csvData @ rows \<or> (reqs = [] \<and> csvData' = csvData)"
  proof (cases "reqs = []")
    case True
    with fin show ?thesis by simp
  next
    case False
    with lines raw show ?thesis by simp
  qed
  have "length (lines_of csvData') = length (raw_lines csvData) + length reqs"
    using all_lines len k by auto
  moreover have "hd (split_on CHR '','' (lines_of csvData' ! (length (raw_lines csvData) + i)))
      = show_nat (length (raw_lines csvData) + i)" if "i < length reqs" for i
  proof -
    from that have "reqs \<noteq> []" by auto
    with all_lines have "lines_of csvData' = raw_lines csvData @ rows" by simp
    then have "lines_of csvData' ! (length (raw_lines csvData) + i) = rows ! i"
      by (simp add: nth_append)
    with ids that show ?thesis by simp
  qed
  ultimately show ?thesis
    unfolding ids_follow_def Let_def k using answers fin by simp
qed

lemma urgency_values:
  "getUrgencyLevel h s \<in> set [''5 (Critical)'', ''4 (High)'', ''3 (Moderate)'', ''2 (Low)'',
      ''1 (Minimal)'', ''N/A'']"
  by (simp add: getUrgencyLevel_def)

lemma urgency_shape:
  "no_newline (getUrgencyLevel h s)" "getUrgencyLevel h s \<noteq> []"
  "\<not> is_ws (last (getUrgencyLevel h s))"
  using urgency_values [of h s] by (auto simp: no_newline_def is_ws_def)

lemma appends_row_B:
  assumes "one_line_form req"
  shows "appends_row (postReportB parseFloat) req"
proof -
  from assms obtain filename where img: "image req = Some filename"
    and clean: "no_newline filename" "no_newline (latitude req)" "no_newline (longitude req)"
      "no_newline (location req)" "no_newline (description req)"
    by (auto simp: one_line_form_def split: option.splits)
  let ?cells = "filename @ '','' @ latitude req @ '','' @ longitude req @ '','' @ location req
      @ '','' @ description req @ '',not_resolved''"
  have shape: "no_newline ?cells" "?cells \<noteq> []" "\<not> is_ws (last ?cells)"
    using clean by (simp_all add: no_newline_def is_ws_def)
  have "postReportB parseFloat req (Some csvData)
      = (fst (postReportB parseFloat req (Some csvData)),
         Some (csvData @ (show_nat (length (lines_of csvData)) @ CHR '','' # ?cells) @ ''\<newline>''))"
    for csvData
    using img by (simp add: postReportB_def Let_def)
  moreover have "answer_id (fst (postReportB parseFloat req (Some csvData)))
      = Some (length (lines_of csvData))" for csvData
    using img by (simp add: postReportB_def Let_def answer_id_def)
  ultimately show ?thesis
    unfolding appends_row_def using shape by blast
qed

lemma appends_row_A:
  assumes "one_line_form req"
    and "\<forall>model\<in>set [''damage'', ''humanitarian'', ''text'']. one_line_label (predict model)"
  shows "appends_row (\<lambda>(req, predict). postReportA parseFloat predict req) (req, predict)"
proof -
  from assms(1) obtain filename where img: "image req = Some filename"
    and clean: "no_newline filename" "no_newline (latitude req)" "no_newline (longitude req)"
      "no_newline (location req)" "no_newline (description req)"
    by (auto simp: one_line_form_def split: option.splits)
  from assms(2) obtain sev hum dis where
    labels: "predict ''damage'' = Some sev" "predict ''humanitarian'' = Some hum"
      "predict ''text'' = Some dis"
    and lclean: "no_newline sev" "no_newline hum" "no_newline dis"
    by (auto simp: one_line_label_def split: option.splits)
  let ?u = "getUrgencyLevel hum sev"
  let ?cells = "filename @ '','' @ latitude req @ '','' @ longitude req @ '','' @ location req
      @ '','' @ description req @ '','' @ sev @ '','' @ hum @ '','' @ dis @ '','' @ ?u"
  have shape: "no_newline ?cells" "?cells \<noteq> []" "\<not> is_ws (last ?cells)"
    using clean lclean urgency_shape [of hum sev] by (simp_all add: no_newline_def)
  have "postReportA parseFloat predict req (Some csvData)
      = (fst (postReportA parseFloat predict req (Some csvData)),
         Some (csvData @ (show_nat (length (lines_of csvData)) @ CHR '','' # ?cells) @ ''\<newline>''))"
    for csvData
    using img labels by (simp add: postReportA_def Let_def)
  moreover have "answer_id (fst (postReportA parseFloat predict req (Some csvData)))
      = Some (length (lines_of csvData))" for csvData
    using img labels by (simp add: postReportA_def Let_def answer_id_def)
  ultimately show ?thesis
    unfolding appends_row_def using shape by (simp only: split) blast
qed

text \<open>
  Claim C4 says that \<open>N\<close> sequential submissions give \<open>N\<close> new rows with consecutive ids.
  From the fresh store of variant B, a report whose description has two lines followed
  by a second report gives the ids 1 and 3: the first submission adds two lines.
\<close>

theorem sequential_ids_counterexample:
  "map answer_id
     (fst (postAll (postReportB id) [two_line_report, flood_report] (initStore headerB None)))
     = [Some 1, Some 3]"
  by (simp add: postReportB_def two_line_report_def flood_report_def initStore_def headerB_def
      lines_of_def trim_def is_ws_def answer_id_def show_nat.simps Let_def)

text \<open>
  Claim C4, amended. From every store whose text ends with a newline after a line that
  is not blank, and that the handler reads as \<open>k\<close> lines, \<open>N\<close> sequential submissions with an
  image whose field values (in variant A also the three predicted labels) hold no newline
  are answered with the ids \<open>k, \<dots>, k + N - 1\<close>, and the file has \<open>N\<close> more lines, which begin
  with these ids; from the fresh store the ids are \<open>1, \<dots>, N\<close>. This holds in variant B and
  in variant A.
\<close>

theorem sequential_ids:
  assumes "terminated csvData"
  shows "((\<forall>req\<in>set reqs. one_line_form req) \<longrightarrow>
            ids_follow (postAll (postReportB parseFloat) reqs (Some csvData)) csvData (length reqs))
       \<and> ((\<forall>job\<in>set jobs. one_line_form (fst job)
              \<and> (\<forall>model\<in>set [''damage'', ''humanitarian'', ''text'']. one_line_label (snd job model))) \<longrightarrow>
            ids_follow (postAll (\<lambda>(req, predict). postReportA parseFloat predict req) jobs (Some csvData))
              csvData (length jobs))"
proof -
  from assms have inv: "counts_lines csvData" by (rule terminated_counts_lines)
  have B: "ids_follow (postAll (postReportB parseFloat) reqs (Some csvData)) csvData (length reqs)"
    if "\<forall>req\<in>set reqs. one_line_form req"
    using inv that by (intro postAll_ids_follow) (auto intro: appends_row_B)
  have A: "ids_follow (postAll (\<lambda>(req, predict). postReportA parseFloat predict req) jobs (Some csvData))
              csvData (length jobs)"
    if ok: "\<forall>job\<in>set jobs. one_line_form (fst job)
              \<and> (\<forall>model\<in>set [''damage'', ''humanitarian'', ''text'']. one_line_label (snd job model))"
  proof (intro postAll_ids_follow inv ballI)
    fix job assume "job \<in> set jobs"
    with ok have "one_line_form (fst job)"
      "\<forall>model\<in>set [''damage'', ''humanitarian'', ''text'']. one_line_label (snd job model)"
      by auto
    then have "appends_row (\<lambda>(req, predict). postReportA parseFloat predict req) (fst job, snd job)"
      by (rule appends_row_A)
    then show "appends_row (\<lambda>(req, predict). postReportA parseFloat predict req) job"
      by simp
  qed
  from A B show ?thesis by blast
qed

theorem sequential_ids_witness:
  "terminated (headerB @ ''\<newline>'')
   \<and> map answer_id
       (fst (postAll (postReportB id) [flood_report, flood_report] (Some (headerB @ ''\<newline>''))))
       = [Some 1, Some 2]
   \<and> terminated (headerA @ ''\<newline>'')
   \<and> map answer_id
       (fst (postAll (\<lambda>(req, predict). postReportA id predict req)
          [(flood_report, sample_predict), (flood_report, sample_predict)]
          (Some (headerA @ ''\<newline>''))))
       = [Some 1, Some 2]"
proof -
  have tB: "terminated (headerB @ ''\<newline>'')"
    by (simp add: terminated_def headerB_def is_ws_def)
  have tA: "terminated (headerA @ ''\<newline>'')"
    by (simp add: terminated_def headerA_def is_ws_def)
  have form: "one_line_form flood_report"
    by (simp add: one_line_form_def flood_report_def no_newline_def)
  have labels: "\<forall>model\<in>set [''damage'', ''humanitarian'', ''text'']. one_line_label (sample_predict model)"
    by (simp add: one_line_label_def sample_predict_def no_newline_def)
  have kB: "length (lines_of (headerB @ ''\<newline>'')) = 1"
    by (simp add: lines_of_def trim_def is_ws_def headerB_def)
  have kA: "length (lines_of (headerA @ ''\<newline>'')) = 1"
    by (simp add: lines_of_def trim_def is_ws_def headerA_def)
  from sequential_ids [OF tB, of "[flood_report, flood_report]" id "[]"] form
  have B: "map answer_id
       (fst (postAll (postReportB id) [flood_report, flood_report] (Some (headerB @ ''\<newline>''))))
       = [Some 1, Some 2]"
    unfolding ids_follow_def Let_def kB by (simp add: upt_conv_Cons)
  from sequential_ids [OF tA, of "[]" id "[(flood_report, sample_predict), (flood_report, sample_predict)]"]
    form labels
  have A: "map answer_id
       (fst (postAll (\<lambda>(req, predict). postReportA id predict req)
          [(flood_report, sample_predict), (flood_report, sample_predict)]
          (Some (headerA @ ''\<newline>''))))
       = [Some 1, Some 2]"
    unfolding ids_follow_def Let_def kA by (simp add: upt_conv_Cons)
  from tB B tA A show ?thesis by simp
qed

subsection \<open>Status update: what changes and what stays\<close>

lemma join_no_char:
  "\<forall>w\<in>set xs. c \<notin> set w \<Longrightarrow> c \<noteq> sep \<Longrightarrow> c \<notin> set (join sep xs)"
  by (induction sep xs rule: join.induct) auto

lemma join_has_char: "w \<in> set xs \<Longrightarrow> c \<in> set w \<Longrightarrow> c \<in> set (join sep xs)"
  by (induction sep xs rule: join.induct) auto

lemma join_last:
  "xs \<noteq> [] \<Longrightarrow> last xs \<noteq> [] \<Longrightarrow> join c xs \<noteq> [] \<and> last (join c xs) = last (last xs)"
  by (induction c xs rule: join.induct) auto

lemma join_last_empty:
  "2 \<le> length xs \<Longrightarrow> last xs = [] \<Longrightarrow> join c xs \<noteq> [] \<and> last (join c xs) = c"
proof (induction c xs rule: join.induct)
  case (1 sep)
  then show ?case by simp
next
  case (2 sep x)
  then show ?case by simp
next
  case (3 sep x y ys)
  show ?case
  proof (cases ys)
    case Nil
    with 3 show ?thesis by simp
  next
    case (Cons z zs)
    with 3 show ?thesis by simp
  qed
qed

lemma join_two_prefix:
  "2 \<le> length xs \<Longrightarrow> take (length (hd xs) + 1) (join c xs) = hd xs @ [c]"
  by (cases xs; cases "tl xs") auto

lemma setStatus_shape:
  "7 \<le> length (setStatus row status)"
  "setStatus row status ! 6 = status"
  "k < length row \<Longrightarrow> k \<noteq> 6 \<Longrightarrow> setStatus row status ! k = row ! k"
  "6 < length row \<Longrightarrow> length (setStatus row status) = length row"
  "row \<noteq> [] \<Longrightarrow> hd (setStatus row status) = hd row"
  "last (setStatus row status) = (if 7 < length row then last row else status)"
  "set (setStatus row status) \<subseteq> set row \<union> {[], status}"
proof -
  show "7 \<le> length (setStatus row status)" by (simp add: setStatus_def)
  show "setStatus row status ! 6 = status" by (simp add: setStatus_def nth_append)
  show "k < length row \<Longrightarrow> k \<noteq> 6 \<Longrightarrow> setStatus row status ! k = row ! k"
    by (simp add: setStatus_def nth_append)
  show "6 < length row \<Longrightarrow> length (setStatus row status) = length row"
    by (simp add: setStatus_def)
  show "row \<noteq> [] \<Longrightarrow> hd (setStatus row status) = hd row"
    by (cases row) (simp_all add: setStatus_def)
  show "last (setStatus row status) = (if 7 < length row then last row else status)"
  proof (cases "6 < length row")
    case True
    then have "row \<noteq> []" by auto
    then have "last (row[6 := status]) = (if 6 = length row - 1 then status else last row)"
      by (simp add: last_list_update)
    with True show ?thesis by (auto simp: setStatus_def)
  next
    case False
    then show ?thesis by (simp add: setStatus_def)
  qed
  show "set (setStatus row status) \<subseteq> set row \<union> {[], status}"
    using set_update_subset_insert [of row 6 status] by (auto simp: setStatus_def)
qed

lemma updateLine_cells:
  assumes "CHR '','' \<notin> set status" and "hd (split_on CHR '','' line) = reportId"
  shows "split_on CHR '','' (updateLine reportId status line)
           = setStatus (split_on CHR '','' line) status"
proof -
  let ?row = "split_on CHR '','' line"
  have "\<forall>w\<in>set (setStatus ?row status). CHR '','' \<notin> set w"
    using setStatus_shape(7) [of ?row status] assms(1) split_on_pieces [of _ "CHR '',''" line]
    by auto
  moreover have "setStatus ?row status \<noteq> []"
    using setStatus_shape(1) [of ?row status] by auto
  ultimately have "split_on CHR '','' (join CHR '','' (setStatus ?row status)) = setStatus ?row status"
    by (intro split_on_join) auto
  with assms(2) show ?thesis by (simp add: updateLine_def Let_def)
qed

lemma updateLine_no_newline:
  assumes "CHR ''\<newline>'' \<notin> set status" "CHR ''\<newline>'' \<notin> set line"
  shows "CHR ''\<newline>'' \<notin> set (updateLine reportId status line)"
proof -
  let ?row = "split_on CHR '','' line"
  have "line = join CHR '','' ?row" by (simp add: join_split_on)
  have cells: "\<forall>w\<in>set ?row. CHR ''\<newline>'' \<notin> set w"
  proof
    fix w assume w: "w \<in> set ?row"
    show "CHR ''\<newline>'' \<notin> set w"
    proof
      assume "CHR ''\<newline>'' \<in> set w"
      with w have "CHR ''\<newline>'' \<in> set (join CHR '','' ?row)"
        by (rule join_has_char)
      with assms(2) show False by (simp add: join_split_on)
    qed
  qed
  have "\<forall>w\<in>set (setStatus ?row status). CHR ''\<newline>'' \<notin> set w"
    using setStatus_shape(7) [of ?row status] cells assms(1) by auto
  then have "CHR ''\<newline>'' \<notin> set (join CHR '','' (setStatus ?row status))"
    by (rule join_no_char) simp
  with assms(2) show ?thesis by (simp add: updateLine_def Let_def)
qed

lemma updateLine_end:
  assumes st: "status = [] \<or> \<not> is_ws (last status)"
    and line: "line \<noteq> []" "\<not> is_ws (last line)"
  shows "updateLine reportId status line \<noteq> [] \<and> \<not> is_ws (last (updateLine reportId status line))"
proof (cases "hd (split_on CHR '','' line) = reportId")
  case False
  with line show ?thesis by (simp add: updateLine_def Let_def)
next
  case True
  let ?row = "split_on CHR '','' line"
  let ?new = "setStatus ?row status"
  have len: "2 \<le> length ?new" using setStatus_shape(1) [of ?row status] by simp
  then have ne: "?new \<noteq> []" by auto
  have upd: "updateLine reportId status line = join CHR '','' ?new"
    using True by (simp add: updateLine_def Let_def)
  show ?thesis
  proof (cases "last ?new = []")
    case True
    from join_last_empty [OF len True, of "CHR '',''"] upd show ?thesis
      by (simp add: comma_not_ws)
  next
    case False
    from join_last [OF ne False, of "CHR '',''"]
    have j: "join CHR '','' ?new \<noteq> []" "last (join CHR '','' ?new) = last (last ?new)"
      by simp_all
    have "\<not> is_ws (last (last ?new))"
    proof (cases "7 < length ?row")
      case True
      then have l: "last ?new = last ?row" by (simp add: setStatus_shape(6))
      with False have "last ?row \<noteq> []" by simp
      moreover have "?row \<noteq> []" by (rule split_on_not_Nil)
      ultimately have "last (join CHR '','' ?row) = last (last ?row)"
        using join_last [of ?row "CHR '',''"] by simp
      then have "last (last ?row) = last line" by (simp add: join_split_on)
      with l line(2) show ?thesis by simp
    next
      case c: False
      then have "last ?new = status" by (simp add: setStatus_shape(6))
      with False st show ?thesis by auto
    qed
    with j upd show ?thesis by simp
  qed
qed

lemma trim_solid:
  assumes "s \<noteq> []" "\<not> is_ws (hd s)" "\<not> is_ws (last s)"
  shows "trim (s @ ''\<newline>'') = s"
proof -
  have "dropWhile is_ws (s @ ''\<newline>'') = s @ ''\<newline>''"
    using assms(1,2) by (cases s) auto
  then have "trim (s @ ''\<newline>'') = rev (dropWhile is_ws (rev (s @ ''\<newline>'')))"
    by (simp add: trim_def)
  also have "\<dots> = rev (dropWhile is_ws (rev s))"
    by (subst rtrim_append) (simp add: newline_is_ws)
  also have "\<dots> = s" using assms(3) by (intro rtrim_id) simp
  finally show ?thesis .
qed

lemma lines_ends:
  assumes "2 \<le> length (lines_of csvData)"
  shows "hd (lines_of csvData) \<noteq> []" "\<not> is_ws (hd (hd (lines_of csvData)))"
    "last (lines_of csvData) \<noteq> []" "\<not> is_ws (last (last (lines_of csvData)))"
proof -
  let ?ls = "lines_of csvData"
  let ?t = "trim csvData"
  have t: "?t = join CHR ''\<newline>'' ?ls" by (simp add: lines_of_def join_split_on)
  from assms obtain h l ls' where ls: "?ls = h # ls'" and ls'ne: "ls' \<noteq> []"
    by (cases ?ls; cases "tl ?ls") auto
  then have th: "?t = h @ CHR ''\<newline>'' # join CHR ''\<newline>'' ls'"
    using t by (simp add: join_Cons)
  then have tne: "?t \<noteq> []" by simp
  with trim_ends [of csvData] have ends: "\<not> is_ws (hd ?t)" "\<not> is_ws (last ?t)" by simp_all
  have "h \<noteq> []"
  proof
    assume "h = []"
    with th have "hd ?t = CHR ''\<newline>''" by simp
    with ends(1) show False by (simp add: newline_is_ws)
  qed
  with th ls ends(1) show "hd ?ls \<noteq> []" "\<not> is_ws (hd (hd ?ls))" by simp_all
  have bl: "butlast ?ls \<noteq> []" using ls ls'ne by (cases ls') auto
  have "?ls = butlast ?ls @ [last ?ls]" using ls by simp
  then have "join CHR ''\<newline>'' ?ls = join CHR ''\<newline>'' (butlast ?ls) @ CHR ''\<newline>'' # last ?ls"
    using join_snoc [OF bl, of "CHR ''\<newline>''" "last ?ls"] by simp
  with t have tl: "?t = join CHR ''\<newline>'' (butlast ?ls) @ CHR ''\<newline>'' # last ?ls" by simp
  have "last ?ls \<noteq> []"
  proof
    assume "last ?ls = []"
    with tl have "last ?t = CHR ''\<newline>''" by simp
    with ends(2) show False by (simp add: newline_is_ws)
  qed
  then show "last ?ls \<noteq> []" .
  with tl have "last ?t = last (last ?ls)" by simp
  with ends(2) show "\<not> is_ws (last (last ?ls))" by simp
qed

lemma lines_after_update:
  assumes found: "reportFound reportId (lines_of csvData)"
    and st: "CHR ''\<newline>'' \<notin> set status" "status = [] \<or> \<not> is_ws (last status)"
  shows "lines_of (join CHR ''\<newline>''
           (hd (lines_of csvData) # map (updateLine reportId status) (tl (lines_of csvData)))
           @ ''\<newline>'')
         = hd (lines_of csvData) # map (updateLine reportId status) (tl (lines_of csvData))"
proof -
  let ?ls = "lines_of csvData"
  let ?ul = "hd ?ls # map (updateLine reportId status) (tl ?ls)"
  from found have tlne: "tl ?ls \<noteq> []" by (auto simp: reportFound_def)
  then have len: "2 \<le> length ?ls" by (cases ?ls; cases "tl ?ls") auto
  note ends = lines_ends [OF len]
  have lsne: "?ls \<noteq> []" using len by auto
  have pieces: "\<forall>w\<in>set ?ls. CHR ''\<newline>'' \<notin> set w"
    using split_on_pieces [of _ "CHR ''\<newline>''" "trim csvData"] by (simp add: lines_of_def)
  have hd_in: "hd ?ls \<in> set ?ls" using lsne by simp
  have tl_in: "set (tl ?ls) \<subseteq> set ?ls" using lsne by (cases ?ls) auto
  have "CHR ''\<newline>'' \<notin> set (updateLine reportId status w)" if "w \<in> set (tl ?ls)" for w
  proof -
    from that tl_in pieces have "CHR ''\<newline>'' \<notin> set w" by blast
    with st(1) show ?thesis by (rule updateLine_no_newline)
  qed
  then have no_nl: "\<forall>w\<in>set ?ul. CHR ''\<newline>'' \<notin> set w"
    using pieces hd_in by auto
  have split: "split_on CHR ''\<newline>'' (join CHR ''\<newline>'' ?ul) = ?ul"
    using no_nl by (intro split_on_join) simp_all
  have j: "join CHR ''\<newline>'' ?ul
      = hd ?ls @ CHR ''\<newline>'' # join CHR ''\<newline>'' (map (updateLine reportId status) (tl ?ls))"
    using tlne by (intro join_Cons) simp
  have jne: "join CHR ''\<newline>'' ?ul \<noteq> []" and jhd: "\<not> is_ws (hd (join CHR ''\<newline>'' ?ul))"
    using j ends(1,2) by simp_all
  have "last ?ul = updateLine reportId status (last (tl ?ls))"
    using tlne by (simp add: last_map)
  also have "last (tl ?ls) = last ?ls" using tlne by (simp add: last_tl)
  finally have lastul: "last ?ul = updateLine reportId status (last ?ls)" .
  from updateLine_end [OF st(2) ends(3,4), of reportId] lastul
  have e: "last ?ul \<noteq> []" "\<not> is_ws (last (last ?ul))" by simp_all
  from join_last [of ?ul "CHR ''\<newline>''"] e
  have "\<not> is_ws (last (join CHR ''\<newline>'' ?ul))" by simp
  with jne jhd have "trim (join CHR ''\<newline>'' ?ul @ ''\<newline>'') = join CHR ''\<newline>'' ?ul"
    by (intro trim_solid)
  with split show ?thesis by (simp add: lines_of_def)
qed

lemma updateStatus_answers:
  assumes found: "reportFound reportId (lines_of csvData)"
  shows "\<exists>body. updateStatus Number reportId status (Some csvData)
           = (Ok200 body,
              Some (join CHR ''\<newline>''
                (hd (lines_of csvData) # map (updateLine reportId status) (tl (lines_of csvData)))
                @ ''\<newline>''))"
proof -
  let ?ls = "lines_of csvData"
  let ?ul = "hd ?ls # map (updateLine reportId status) (tl ?ls)"
  from found obtain line where line: "line \<in> set (tl ?ls)"
    "hd (split_on CHR '','' line) = reportId"
    by (auto simp: reportFound_def list_ex_iff)
  let ?row = "split_on CHR '','' line"
  have "2 \<le> length (setStatus ?row status)"
    using setStatus_shape(1) [of ?row status] by simp
  from join_two_prefix [OF this, of "CHR '',''"]
  have "take (length reportId + 1) (updateLine reportId status line) = reportId @ '',''"
    using line(2) setStatus_shape(5) [OF split_on_not_Nil, of "CHR '',''" line status]
    by (simp add: updateLine_def Let_def)
  moreover have "updateLine reportId status line \<in> set ?ul" using line(1) by simp
  ultimately have "find (\<lambda>l. take (length reportId + 1) l = reportId @ '','') ?ul \<noteq> None"
    unfolding find_None_iff by blast
  then obtain updatedReport where
    "find (\<lambda>l. take (length reportId + 1) l = reportId @ '','') ?ul = Some updatedReport"
    by auto
  with found show ?thesis
    by (simp add: updateStatus_def Let_def)
qed


text \<open>
  Claim C2 says that after the update the seventh column of the row equals the new
  status, the rest being as before. With the status \<^verbatim>\<open>resolved, closed\<close> on the store of one
  report, the row that is written has eight columns and its seventh is \<^verbatim>\<open>resolved\<close>.
\<close>

theorem updateStatus_comma_counterexample:
  "snd (updateStatus id ''1'' ''resolved, closed'' (Some one_report))
     = Some (headerB @ ''\<newline>1,17-a.png,12.9,77.6,MG Road,Flood,resolved, closed\<newline>'')
   \<and> split_on CHR '',''
        (lines_of (headerB @ ''\<newline>1,17-a.png,12.9,77.6,MG Road,Flood,resolved, closed\<newline>'') ! 1) ! 6
       = ''resolved''
   \<and> length (split_on CHR '',''
        (lines_of (headerB @ ''\<newline>1,17-a.png,12.9,77.6,MG Road,Flood,resolved, closed\<newline>'') ! 1))
       = 8"
proof -
  have "lines_of (headerB @ ''\<newline>1,17-a.png,12.9,77.6,MG Road,Flood,resolved, closed\<newline>'')
      = [headerB, ''1,17-a.png,12.9,77.6,MG Road,Flood,resolved, closed'']"
    by (simp add: lines_of_def trim_def is_ws_def headerB_def)
  moreover have "snd (updateStatus id ''1'' ''resolved, closed'' (Some one_report))
     = Some (headerB @ ''\<newline>1,17-a.png,12.9,77.6,MG Road,Flood,resolved, closed\<newline>'')"
    by (simp add: snd_updateStatus lines_one_report reportFound_def updateLine_def setStatus_def)
  ultimately show ?thesis by simp
qed

text \<open>
  Claim C2, amended. Let the store have a data row whose first column equals the id, and
  let the new status hold no comma and no newline and not end with white space. Then the
  update answers 200, and the store it writes is read with the same number of lines and
  the same header; in each data row whose first column equals the id the seventh column
  is the new status and every other column is as before (a row of seven or more columns
  keeps its length); each data row whose first column differs is the same line as before.
  Rows are the lines as the handlers read them.
\<close>

theorem updateStatus_frame:
  assumes found: "reportFound reportId (lines_of csvData)"
    and st: "CHR '','' \<notin> set status" "CHR ''\<newline>'' \<notin> set status"
      "status = [] \<or> \<not> is_ws (last status)"
  shows "\<exists>body csvData'.
      updateStatus Number reportId status (Some csvData) = (Ok200 body, Some csvData')
      \<and> length (lines_of csvData') = length (lines_of csvData)
      \<and> hd (lines_of csvData') = hd (lines_of csvData)
      \<and> (\<forall>i. 0 < i \<and> i < length (lines_of csvData) \<longrightarrow>
            (if hd (split_on CHR '','' (lines_of csvData ! i)) = reportId
             then split_on CHR '','' (lines_of csvData' ! i) ! 6 = status
                  \<and> (\<forall>k<length (split_on CHR '','' (lines_of csvData ! i)). k \<noteq> 6 \<longrightarrow>
                        split_on CHR '','' (lines_of csvData' ! i) ! k
                          = split_on CHR '','' (lines_of csvData ! i) ! k)
                  \<and> (6 < length (split_on CHR '','' (lines_of csvData ! i)) \<longrightarrow>
                        length (split_on CHR '','' (lines_of csvData' ! i))
                          = length (split_on CHR '','' (lines_of csvData ! i)))
             else lines_of csvData' ! i = lines_of csvData ! i))"
proof -
  let ?ls = "lines_of csvData"
  let ?ul = "hd ?ls # map (updateLine reportId status) (tl ?ls)"
  let ?csv = "join CHR ''\<newline>'' ?ul @ ''\<newline>''"
  from updateStatus_answers [OF found, of Number status] obtain body where
    answer: "updateStatus Number reportId status (Some csvData) = (Ok200 body, Some ?csv)"
    by blast
  have lines: "lines_of ?csv = ?ul"
    using found st(2,3) by (rule lines_after_update)
  have lsne: "?ls \<noteq> []" by (simp add: lines_of_def split_on_not_Nil)
  then have len: "length ?ul = length ?ls" by (cases ?ls) auto
  have nth: "?ul ! i = updateLine reportId status (?ls ! i)" if "0 < i" "i < length ?ls" for i
  proof -
    from that obtain j where j: "i = Suc j" by (cases i) auto
    with that(2) lsne have "j < length (tl ?ls)" by simp
    with j lsne show ?thesis by (simp add: nth_tl)
  qed
  have row: "(if hd (split_on CHR '','' (?ls ! i)) = reportId
             then split_on CHR '','' (?ul ! i) ! 6 = status
                  \<and> (\<forall>k<length (split_on CHR '','' (?ls ! i)). k \<noteq> 6 \<longrightarrow>
                        split_on CHR '','' (?ul ! i) ! k = split_on CHR '','' (?ls ! i) ! k)
                  \<and> (6 < length (split_on CHR '','' (?ls ! i)) \<longrightarrow>
                        length (split_on CHR '','' (?ul ! i)) = length (split_on CHR '','' (?ls ! i)))
             else ?ul ! i = ?ls ! i)"
    if i: "0 < i" "i < length ?ls" for i
  proof (cases "hd (split_on CHR '','' (?ls ! i)) = reportId")
    case True
    from updateLine_cells [OF st(1) True]
    have "split_on CHR '','' (?ul ! i) = setStatus (split_on CHR '','' (?ls ! i)) status"
      using nth [OF i] by simp
    with True show ?thesis by (simp add: setStatus_shape)
  next
    case False
    then show ?thesis using nth [OF i] by (simp add: updateLine_def Let_def)
  qed
  have "length (lines_of ?csv) = length ?ls" by (simp only: lines len)
  moreover have "hd (lines_of ?csv) = hd ?ls" by (simp only: lines list.sel)
  moreover have "\<forall>i. 0 < i \<and> i < length ?ls \<longrightarrow>
      (if hd (split_on CHR '','' (?ls ! i)) = reportId
             then split_on CHR '','' (lines_of ?csv ! i) ! 6 = status
                  \<and> (\<forall>k<length (split_on CHR '','' (?ls ! i)). k \<noteq> 6 \<longrightarrow>
                        split_on CHR '','' (lines_of ?csv ! i) ! k = split_on CHR '','' (?ls ! i) ! k)
                  \<and> (6 < length (split_on CHR '','' (?ls ! i)) \<longrightarrow>
                        length (split_on CHR '','' (lines_of ?csv ! i))
                          = length (split_on CHR '','' (?ls ! i)))
             else lines_of ?csv ! i = ?ls ! i)"
    unfolding lines using row by blast
  ultimately show ?thesis
    using answer by blast
qed

theorem updateStatus_frame_witness:
  "reportFound ''1'' (lines_of one_report)
   \<and> (\<exists>body csvData'.
         updateStatus id ''1'' ''resolved'' (Some one_report) = (Ok200 body, Some csvData')
       \<and> hd (lines_of csvData') = headerB
       \<and> split_on CHR '','' (lines_of csvData' ! 1)
           = [''1'', ''17-a.png'', ''12.9'', ''77.6'', ''MG Road'', ''Flood'', ''resolved''])"
proof -
  have found: "reportFound ''1'' (lines_of one_report)"
    by (simp add: reportFound_def lines_one_report)
  have cells: "split_on CHR '','' ''1,17-a.png,12.9,77.6,MG Road,Flood,not_resolved''
      = [''1'', ''17-a.png'', ''12.9'', ''77.6'', ''MG Road'', ''Flood'', ''not_resolved'']"
    by simp
  from updateStatus_frame [OF found, of "''resolved''" id]
  obtain body csvData' where
    answer: "updateStatus id ''1'' ''resolved'' (Some one_report) = (Ok200 body, Some csvData')"
    and hd: "hd (lines_of csvData') = hd (lines_of one_report)"
    and rows: "\<forall>i. 0 < i \<and> i < length (lines_of one_report) \<longrightarrow>
            (if hd (split_on CHR '','' (lines_of one_report ! i)) = ''1''
             then split_on CHR '','' (lines_of csvData' ! i) ! 6 = ''resolved''
                  \<and> (\<forall>k<length (split_on CHR '','' (lines_of one_report ! i)). k \<noteq> 6 \<longrightarrow>
                        split_on CHR '','' (lines_of csvData' ! i) ! k
                          = split_on CHR '','' (lines_of one_report ! i) ! k)
                  \<and> (6 < length (split_on CHR '','' (lines_of one_report ! i)) \<longrightarrow>
                        length (split_on CHR '','' (lines_of csvData' ! i))
                          = length (split_on CHR '','' (lines_of one_report ! i)))
             else lines_of csvData' ! i = lines_of one_report ! i)"
    by (auto simp: is_ws_def)
  let ?row = "split_on CHR '','' (lines_of csvData' ! 1)"
  from rows [rule_format, of 1]
  have six: "?row ! 6 = ''resolved''"
    and others: "\<forall>k<7. k \<noteq> 6 \<longrightarrow> ?row ! k
        = [''1'', ''17-a.png'', ''12.9'', ''77.6'', ''MG Road'', ''Flood'', ''not_resolved''] ! k"
    and len: "length ?row = 7"
    by (simp_all add: lines_one_report cells)
  have "?row = [''1'', ''17-a.png'', ''12.9'', ''77.6'', ''MG Road'', ''Flood'', ''resolved'']"
  proof (rule nth_equalityI)
    show "length ?row = length [''1'', ''17-a.png'', ''12.9'', ''77.6'', ''MG Road'', ''Flood'', ''resolved'']"
      using len by simp
    fix k assume "k < length ?row"
    with len have "k < 7" by simp
    then consider "k = 0" | "k = 1" | "k = 2" | "k = 3" | "k = 4" | "k = 5" | "k = 6"
      by linarith
    then show "?row ! k = [''1'', ''17-a.png'', ''12.9'', ''77.6'', ''MG Road'', ''Flood'', ''resolved''] ! k"
      using six others by cases simp_all
  qed
  with found answer hd show ?thesis
    by (simp add: lines_one_report)
qed

subsection \<open>The wallet\<close>

lemma signup_wallets:
  "list_all (\<lambda>u. wallet_amount u = 0) users \<Longrightarrow>
   list_all (\<lambda>u. wallet_amount u = 0) (snd (signup hashPassword mobile nm em password pin users))"
  by (simp add: signup_def Let_def split: option.splits)

lemma serveB_wallets:
  "wallets_zero s \<Longrightarrow> wallets_zero (snd (serveB hashPassword parseFloat Number r s))"
proof (cases s)
  case (Pair users fs)
  assume "wallets_zero s"
  with Pair show ?thesis
    using signup_wallets [of users]
    by (cases r) (simp_all add: wallets_zero_def split_beta Let_def)
qed

lemma serveA_wallets:
  "wallets_zero s \<Longrightarrow> wallets_zero (snd (serveA hashPassword parseFloat Number r s))"
proof (cases s)
  case (Pair users fs)
  assume "wallets_zero s"
  with Pair show ?thesis
    using signup_wallets [of users]
    by (cases r) (simp_all add: wallets_zero_def split_beta Let_def)
qed

lemma run_invariant:
  assumes "\<And>r s. P s \<Longrightarrow> P (snd (serve r s))"
  shows "P s \<Longrightarrow> P (run serve rs s)"
  by (induction rs arbitrary: s) (simp_all add: assms)

text \<open>
  Claim C9. After any sequence of signups, logins, report submissions, report reads and
  (in variant B) status updates on a server that starts with no users, every stored user
  has the wallet amount 0 that signup wrote.
\<close>

theorem wallet_stays_zero:
  "(\<forall>u\<in>set (fst (run (serveB hashPassword parseFloat Number) requestsB
                ([], initStore headerB fileB))). wallet_amount u = 0)
   \<and> (\<forall>u\<in>set (fst (run (serveA hashPassword parseFloat Number) requestsA
                ([], initStore headerA fileA))). wallet_amount u = 0)"
proof -
  have "wallets_zero (run (serveB hashPassword parseFloat Number) requestsB
          ([], initStore headerB fileB))"
    by (rule run_invariant) (simp_all add: serveB_wallets, simp add: wallets_zero_def)
  moreover have "wallets_zero (run (serveA hashPassword parseFloat Number) requestsA
          ([], initStore headerA fileA))"
    by (rule run_invariant) (simp_all add: serveA_wallets, simp add: wallets_zero_def)
  ultimately show ?thesis
    by (simp add: wallets_zero_def list_all_iff)
qed

lemma run_B_example: "fst (run (serveB rev Some id)
       [Signup ''9800000001'' ''Asha'' ''asha@example.org'' (Some ''secret'') ''1234'',
        Login ''9800000001'' ''1234'',
        PostReport flood_report,
        GetReports,
        PutStatus ''1'' ''resolved'',
        Signup ''9800000003'' ''Chitra'' ''chitra@example.org'' None ''0000'',
        Signup ''9800000002'' ''Bina'' ''bina@example.org'' (Some ''other'') ''4321'']
       ([], initStore headerB None)) = [asha, bina]"
  by (simp add: signup_def asha_def bina_def split_beta Let_def)

lemma run_A_example: "fst (run (serveA rev Some id)
       [SignupA ''9800000002'' ''Bina'' ''bina@example.org'' (Some ''other'') ''4321'',
        PostReportA flood_report sample_predict,
        GetReportsA,
        LoginA ''9800000002'' ''4321'']
       ([], initStore headerA None)) = [bina]"
  by (simp add: signup_def bina_def split_beta Let_def)

theorem wallet_stays_zero_witness:
  "fst (run (serveB rev Some id)
       [Signup ''9800000001'' ''Asha'' ''asha@example.org'' (Some ''secret'') ''1234'',
        Login ''9800000001'' ''1234'',
        PostReport flood_report,
        GetReports,
        PutStatus ''1'' ''resolved'',
        Signup ''9800000003'' ''Chitra'' ''chitra@example.org'' None ''0000'',
        Signup ''9800000002'' ''Bina'' ''bina@example.org'' (Some ''other'') ''4321'']
       ([], initStore headerB None)) = [asha, bina]
   \<and> fst (run (serveA rev Some id)
       [SignupA ''9800000002'' ''Bina'' ''bina@example.org'' (Some ''other'') ''4321'',
        PostReportA flood_report sample_predict,
        GetReportsA,
        LoginA ''9800000002'' ''4321'']
       ([], initStore headerA None)) = [bina]
   \<and> wallet_amount asha = 0 \<and> wallet_amount bina = 0"
  using wallet_stays_zero [of rev Some id
       "[Signup ''9800000001'' ''Asha'' ''asha@example.org'' (Some ''secret'') ''1234'',
        Login ''9800000001'' ''1234'',
        PostReport flood_report,
        GetReports,
        PutStatus ''1'' ''resolved'',
        Signup ''9800000003'' ''Chitra'' ''chitra@example.org'' None ''0000'',
        Signup ''9800000002'' ''Bina'' ''bina@example.org'' (Some ''other'') ''4321'']" None
       "[SignupA ''9800000002'' ''Bina'' ''bina@example.org'' (Some ''other'') ''4321'',
        PostReportA flood_report sample_predict,
        GetReportsA,
        LoginA ''9800000002'' ''4321'']" None]
  unfolding run_B_example run_A_example by simp

end
